theory Spec2Isabelle
  imports Complex_Main "HOL-Library.Multiset"
begin

section \<open>Shared helpers of both stores\<close>

text \<open>
  Go strings are byte sequences; \<^typ>\<open>string\<close> is a list of 8-bit characters, so
  \<^term>\<open>length s\<close> is Go's \<^verbatim>\<open>len(s)\<close>. Go's \<^verbatim>\<open>int\<close> is modelled by
  \<^typ>\<open>int\<close> (no value in these functions comes near 64 bits), \<^verbatim>\<open>float64\<close>
  by \<^typ>\<open>real\<close> (NaN and infinities are outside the model).
\<close>

text \<open>\<^verbatim>\<open>estimateTokens\<close> (pkg/session/sqlite.go and pkg/memory/helpers.go, the same body):
  \<^verbatim>\<open>(len(text) + 3) / 4\<close>.\<close>

definition estimateTokens :: "string \<Rightarrow> int" where
  "estimateTokens text = (int (length text) + 3) div 4"

text \<open>The six ASCII bytes that \<^verbatim>\<open>strings.TrimSpace\<close> and \<^verbatim>\<open>strings.Fields\<close> treat as
  white space. The Unicode spaces beyond ASCII (U+0085, U+00A0, U+2000 ...) are not modelled:
  a text is taken to hold none of them.\<close>

definition asciiSpace :: "char \<Rightarrow> bool" where
  "asciiSpace c \<longleftrightarrow>
     c = CHR 0x09 \<or> c = CHR 0x0A \<or> c = CHR 0x0B \<or> c = CHR 0x0C \<or> c = CHR 0x0D \<or> c = CHR '' ''"

definition TrimSpace :: "string \<Rightarrow> string" where
  "TrimSpace s = rev (dropWhile asciiSpace (rev (dropWhile asciiSpace s)))"

text \<open>\<^verbatim>\<open>strings.Fields\<close>: the maximal runs of non-space bytes, in order.\<close>

fun Fields_aux :: "string \<Rightarrow> string \<Rightarrow> string list" where
  "Fields_aux w [] = (if w = [] then [] else [rev w])"
| "Fields_aux w (c # cs) =
     (if asciiSpace c then (if w = [] then Fields_aux [] cs else rev w # Fields_aux [] cs)
      else Fields_aux (c # w) cs)"

definition Fields :: "string \<Rightarrow> string list" where
  "Fields s = Fields_aux [] s"

text \<open>\<^verbatim>\<open>strings.Trim(w, cutset)\<close> and \<^verbatim>\<open>strings.ToLower\<close> on ASCII letters.\<close>

definition Trim :: "string \<Rightarrow> string \<Rightarrow> string" where
  "Trim w cutset =
     rev (dropWhile (\<lambda>c. c \<in> set cutset) (rev (dropWhile (\<lambda>c. c \<in> set cutset) w)))"

definition lower_char :: "char \<Rightarrow> char" where
  "lower_char c =
     (let n = (of_char c :: nat) in if 65 \<le> n \<and> n \<le> 90 then char_of (n + 32) else c)"

definition ToLower :: "string \<Rightarrow> string" where
  "ToLower s = map lower_char s"

text \<open>\<^verbatim>\<open>strings.Join\<close>.\<close>

fun Join :: "string list \<Rightarrow> string \<Rightarrow> string" where
  "Join [] sep = []"
| "Join [w] sep = w"
| "Join (w # ws) sep = w @ sep @ Join ws sep"

definition stopWords :: "string list" where
  "stopWords =
     [''that'', ''this'', ''with'', ''from'', ''have'', ''been'', ''were'', ''they'',
      ''their'', ''which'', ''would'', ''there'', ''about'', ''could'', ''other'', ''into'',
      ''more'', ''some'', ''than'', ''them'', ''very'', ''when'', ''what'', ''your'',
      ''also'', ''each'', ''does'', ''will'', ''just'', ''should'', ''because'', ''these'']"

definition punct_cutset :: string where
  "punct_cutset = [CHR ''.'', CHR '','', CHR '';'', CHR '':'', CHR ''!'', CHR ''?'', CHR 0x22,
                   CHR 0x27, CHR ''('', CHR '')'', CHR ''['', CHR '']'', CHR ''{'', CHR ''}'']"

text \<open>The loop of \<^verbatim>\<open>extractKeywords\<close>: \<open>seen\<close> is the set of keywords kept so far, which
  is the list \<open>keywords\<close> itself.\<close>

fun keyword_loop :: "string list \<Rightarrow> string list \<Rightarrow> string list" where
  "keyword_loop keywords [] = keywords"
| "keyword_loop keywords (w # ws) =
     (let lower = ToLower (Trim w punct_cutset) in
      if lower = [] \<or> length lower < 4 \<or> lower \<in> set stopWords \<or> lower \<in> set keywords
      then keyword_loop keywords ws
      else keyword_loop (keywords @ [lower]) ws)"

text \<open>\<^verbatim>\<open>extractKeywords\<close>, with the cap of the caller's package: 15 in pkg/session,
  20 in pkg/memory.\<close>

definition extractKeywords :: "nat \<Rightarrow> string \<Rightarrow> string" where
  "extractKeywords cap text =
     (let keywords = keyword_loop [] (Fields text);
          keywords = (if length keywords > cap then take cap keywords else keywords)
      in Join keywords '', '')"


section \<open>Session store (pkg/session)\<close>

subsection \<open>Data model\<close>

text \<open>
  A row of \<^verbatim>\<open>session_entries\<close>, with the column names of the schema. The model holds the
  rows of one session, in insertion order: \<^verbatim>\<open>id\<close> is the table's primary key, so the
  statements that address a row by id reach no row of another session, and every other
  statement filters on \<^verbatim>\<open>session_id\<close>. The columns \<^verbatim>\<open>created_at\<close> and \<^verbatim>\<open>compressed_at\<close>
  are left out: no modelled statement reads them. An embedding is the list of its
  components; the empty list is the NULL blob (\<^verbatim>\<open>encodeEmbedding\<close> stores nil for it, and
  \<^verbatim>\<open>decodeEmbedding\<close> gives back what was encoded).
\<close>

record entry =
  eid :: string
  role :: string
  content :: string
  original_content :: string
  source :: string
  embedding :: "real list"
  importance :: real
  compression_level :: int
  tokens :: int
  seq :: int

text \<open>\<^verbatim>\<open>sessionConfig\<close>: the session's row of the \<^verbatim>\<open>sessions\<close> table.\<close>

record sessionConfig =
  maxTokens :: int
  dedupThreshold :: real
  preserveRecent :: int

text \<open>\<^verbatim>\<open>Config\<close>, \<^verbatim>\<open>DefaultConfig\<close> and \<^verbatim>\<open>CreateRequest\<close> of pkg/session/session.go.\<close>

record Config =
  DefaultMaxTokens :: int
  DefaultDedupThreshold :: real
  DefaultPreserveRecent :: int

definition DefaultConfig :: Config where
  "DefaultConfig =
     \<lparr>DefaultMaxTokens = 128000, DefaultDedupThreshold = 0.15, DefaultPreserveRecent = 10\<rparr>"

record CreateRequest =
  MaxTokens :: int
  DedupThreshold :: real
  PreserveRecent :: int

text \<open>The row that \<^verbatim>\<open>Create\<close> inserts into \<^verbatim>\<open>sessions\<close>.\<close>

definition Create_config :: "Config \<Rightarrow> CreateRequest \<Rightarrow> sessionConfig" where
  "Create_config cfg req =
     \<lparr>maxTokens = (if MaxTokens req \<le> 0 then DefaultMaxTokens cfg else MaxTokens req),
      dedupThreshold =
        (if DedupThreshold req \<le> 0 then DefaultDedupThreshold cfg else DedupThreshold req),
      preserveRecent =
        (if PreserveRecent req \<le> 0 then DefaultPreserveRecent cfg else PreserveRecent req)\<rparr>"

record PushEntry =
  Role :: string
  Content :: string
  Source :: string
  Embedding :: "real list"
  Importance :: real

record PushResult =
  Accepted :: int
  Deduplicated :: int
  Compressed :: int
  Evicted :: int
  CurrentTokens :: int
  BudgetRemaining :: int

datatype error = ErrSessionNotFound | ErrSessionExists | ErrOverBudget | ErrStorage

text \<open>\<^verbatim>\<open>compressCandidate\<close>: what \<^verbatim>\<open>enforceBudget\<close> scans of a row.\<close>

record compressCandidate =
  c_id :: string
  c_originalContent :: string
  c_level :: int
  c_importance :: real
  c_tokens :: int

definition candidate_of :: "entry \<Rightarrow> compressCandidate" where
  "candidate_of r =
     \<lparr>c_id = eid r, c_originalContent = original_content r, c_level = compression_level r,
      c_importance = importance r, c_tokens = tokens r\<rparr>"

text \<open>
  What the package calls and the repository's files do not hold:
  \<^item> \<open>CosineDistance\<close>: \<^verbatim>\<open>distillmath.CosineDistance\<close> of pkg/math;
  \<^item> \<open>Compress\<close>: the text of the first chunk that pkg/compress's extractive compressor
    returns for one chunk with \<^verbatim>\<open>TargetReduction 0.2\<close>, \<^verbatim>\<open>MinChunkLength 20\<close>
    (empty when it returns no chunk);
  \<^item> \<open>sort_Slice\<close>: the standard library's \<^verbatim>\<open>sort.Slice\<close>, given the \<open>less\<close> function;
  \<^item> \<open>generateID\<close>: the identifier drawn for the \<open>k\<close>-th entry of a request (time and
    \<^verbatim>\<open>crypto/rand\<close>).
\<close>

record externals =
  CosineDistance :: "real list \<Rightarrow> real list \<Rightarrow> real"
  Compress :: "string \<Rightarrow> string"
  sort_Slice :: "(compressCandidate \<Rightarrow> compressCandidate \<Rightarrow> bool) \<Rightarrow>
                 compressCandidate list \<Rightarrow> compressCandidate list"
  generateID :: "nat \<Rightarrow> string"

definition LevelFull :: int where "LevelFull = 0"
definition LevelSummary :: int where "LevelSummary = 1"
definition LevelSentence :: int where "LevelSentence = 2"
definition LevelKeywords :: int where "LevelKeywords = 3"

subsection \<open>The compressor cascade\<close>

text \<open>
  The first loop of the \<^verbatim>\<open>LevelSentence\<close> case ranges over the runes of the text and
  compares each with three ASCII characters. In UTF-8 an ASCII byte is never part of a
  longer sequence, and an invalid byte decodes to U+FFFD with width 1, so the index found is
  the index of the first such byte.
\<close>

definition is_terminator :: "char \<Rightarrow> bool" where
  "is_terminator r \<longleftrightarrow> r = CHR ''.'' \<or> r = CHR ''!'' \<or> r = CHR ''?''"

fun find_terminator :: "nat \<Rightarrow> string \<Rightarrow> nat option" where
  "find_terminator i [] = None"
| "find_terminator i (r # rs) =
     (if is_terminator r then Some i else find_terminator (Suc i) rs)"

text \<open>\<^verbatim>\<open>for cut > 0 && text[cut] != ' ' { cut-- }\<close>; the caller starts it at 50 on a text
  longer than 50 bytes, so every index read is in range.\<close>

fun word_boundary :: "string \<Rightarrow> nat \<Rightarrow> nat" where
  "word_boundary text 0 = 0"
| "word_boundary text (Suc n) =
     (if text ! Suc n \<noteq> CHR '' '' then word_boundary text n else Suc n)"

definition compressToLevel :: "externals \<Rightarrow> string \<Rightarrow> int \<Rightarrow> string" where
  "compressToLevel X text level =
     (if level = LevelSummary then
        (let result = Compress X text in if result \<noteq> [] then result else text)
      else if level = LevelSentence then
        (case find_terminator 0 text of
           Some i \<Rightarrow> take (i + 1) text
         | None \<Rightarrow>
             if length text > 50 then
               (let cut = word_boundary text 50;
                    cut = (if cut = 0 then 50 else cut)
                in TrimSpace (take cut text) @ ''...'')
             else text)
      else if level = LevelKeywords then extractKeywords 15 text
      else text)"

subsection \<open>Statements on the rows of a session\<close>

text \<open>\<^verbatim>\<open>SELECT COALESCE(SUM(tokens), 0)\<close>, \<^verbatim>\<open>ORDER BY seq ASC\<close>,
  \<^verbatim>\<open>DELETE ... WHERE id = ?\<close> and the \<^verbatim>\<open>UPDATE ... WHERE id = ?\<close> of \<^verbatim>\<open>enforceBudget\<close>.\<close>

definition sum_tokens :: "entry list \<Rightarrow> int" where
  "sum_tokens rows = sum_list (map tokens rows)"

definition by_seq :: "entry list \<Rightarrow> entry list" where
  "by_seq rows = sort_key seq rows"

definition delete_id :: "string \<Rightarrow> entry list \<Rightarrow> entry list" where
  "delete_id i rows = filter (\<lambda>r. eid r \<noteq> i) rows"

definition update_id :: "string \<Rightarrow> string \<Rightarrow> int \<Rightarrow> int \<Rightarrow> entry list \<Rightarrow> entry list" where
  "update_id i newContent nextLevel newTokens rows =
     map (\<lambda>r. if eid r = i
               then r\<lparr>content := newContent, compression_level := nextLevel, tokens := newTokens\<rparr>
               else r) rows"

text \<open>\<^verbatim>\<open>isDuplicate\<close>: the scan over the stored embeddings that are not NULL.\<close>

fun isDuplicate_scan :: "externals \<Rightarrow> real list \<Rightarrow> real \<Rightarrow> real list list \<Rightarrow> bool" where
  "isDuplicate_scan X emb threshold [] = False"
| "isDuplicate_scan X emb threshold (existing # blobs) =
     (if length existing = 0 then isDuplicate_scan X emb threshold blobs
      else if CosineDistance X emb existing < threshold then True
      else isDuplicate_scan X emb threshold blobs)"

definition isDuplicate :: "externals \<Rightarrow> entry list \<Rightarrow> real list \<Rightarrow> real \<Rightarrow> bool" where
  "isDuplicate X rows emb threshold = isDuplicate_scan X emb threshold (map embedding rows)"

subsection \<open>Budget enforcement\<close>

text \<open>\<^verbatim>\<open>sortCandidates\<close>: \<^verbatim>\<open>sort.Slice\<close> with \<^verbatim>\<open>c[i].importance < c[j].importance\<close>.\<close>

definition sortCandidates :: "externals \<Rightarrow> compressCandidate list \<Rightarrow> compressCandidate list" where
  "sortCandidates X c = sort_Slice X (\<lambda>a b. c_importance a < c_importance b) c"

text \<open>\<^verbatim>\<open>evictOldest\<close>. The query fails with \<^verbatim>\<open>sql.ErrNoRows\<close> on a session without rows,
  and the loop breaks. The result is the rows left and the function's two counters.\<close>

function evictOldest :: "sessionConfig \<Rightarrow> entry list \<Rightarrow> int \<Rightarrow> int \<Rightarrow> entry list \<times> int \<times> int" where
  "evictOldest cfg rows currentTokens evicted =
     (if currentTokens > maxTokens cfg then
        (case by_seq rows of
           [] \<Rightarrow> (rows, 0, evicted)
         | r # _ \<Rightarrow> evictOldest cfg (delete_id (eid r) rows) (currentTokens - tokens r) (evicted + 1))
      else (rows, 0, evicted))"
  by pat_completeness auto
termination
proof (relation "measure (\<lambda>(cfg, rows, currentTokens, evicted). length rows)")
  fix cfg :: sessionConfig and rows :: "entry list" and currentTokens evicted :: int
    and r :: entry and rs :: "entry list"
  assume "by_seq rows = r # rs"
  then have "r \<in> set (by_seq rows)" by simp
  then have "r \<in> set rows" by (simp add: by_seq_def)
  then have "length (filter (\<lambda>x. eid x \<noteq> eid r) rows) < length rows"
    by (intro length_filter_less[of r]) auto
  then show "((cfg, delete_id (eid r) rows, currentTokens - tokens r, evicted + 1),
              (cfg, rows, currentTokens, evicted))
             \<in> measure (\<lambda>(cfg, rows, currentTokens, evicted). length rows)"
    by (simp add: delete_id_def)
qed simp

declare evictOldest.simps [simp del]

text \<open>The loop of \<^verbatim>\<open>enforceBudget\<close> over the sorted candidates.\<close>

fun compress_loop ::
  "externals \<Rightarrow> sessionConfig \<Rightarrow> compressCandidate list \<Rightarrow> entry list \<Rightarrow> int \<Rightarrow> int \<Rightarrow> int \<Rightarrow>
   entry list \<times> int \<times> int" where
  "compress_loop X cfg [] rows currentTokens compressed evicted = (rows, compressed, evicted)"
| "compress_loop X cfg (c # cs) rows currentTokens compressed evicted =
     (if currentTokens \<le> maxTokens cfg then (rows, compressed, evicted)
      else
        (let nextLevel = c_level c + 1 in
         if nextLevel > LevelKeywords then
           compress_loop X cfg cs (delete_id (c_id c) rows) (currentTokens - c_tokens c)
             compressed (evicted + 1)
         else
           (let newContent = compressToLevel X (c_originalContent c) nextLevel;
                newTokens = estimateTokens newContent
            in compress_loop X cfg cs (update_id (c_id c) newContent nextLevel newTokens rows)
                 (currentTokens - (c_tokens c - newTokens)) (compressed + 1) evicted)))"

definition enforceBudget :: "externals \<Rightarrow> sessionConfig \<Rightarrow> entry list \<Rightarrow> entry list \<times> int \<times> int" where
  "enforceBudget X cfg rows =
     (let currentTokens = sum_tokens rows in
      if currentTokens \<le> maxTokens cfg then (rows, 0, 0)
      else
        (let totalEntries = int (length rows);
             limit = totalEntries - preserveRecent cfg
         in if limit \<le> 0 then evictOldest cfg rows currentTokens 0
            else
              (let candidates = map candidate_of (take (nat limit) (by_seq rows))
               in compress_loop X cfg (sortCandidates X candidates) rows currentTokens 0 0)))"


subsection \<open>Push\<close>

text \<open>\<^verbatim>\<open>SELECT COALESCE(MAX(seq), 0)\<close>.\<close>

definition max_seq :: "entry list \<Rightarrow> int" where
  "max_seq rows = (case rows of [] \<Rightarrow> 0 | r # rs \<Rightarrow> fold (\<lambda>x m. max (seq x) m) rs (seq r))"

text \<open>Lines 161 to 164 of \<^verbatim>\<open>Push\<close>: the importance that is stored for an entry.\<close>

definition normalize_importance :: "real \<Rightarrow> real" where
  "normalize_importance v = (if v \<le> 0 then 0.5 else v)"

text \<open>
  The first loop of \<^verbatim>\<open>Push\<close>, over the entries of the request; \<open>k\<close> counts the entries
  seen. Every statement is committed on its own, so the rows are part of the result also
  when the loop returns an error. An \<^verbatim>\<open>INSERT\<close> whose id is taken fails on the primary
  key.
\<close>

fun push_entries ::
  "externals \<Rightarrow> sessionConfig \<Rightarrow> nat \<Rightarrow> PushEntry list \<Rightarrow> entry list \<Rightarrow> int \<Rightarrow> PushResult \<Rightarrow>
   entry list \<times> (error + PushResult)" where
  "push_entries X sess k [] rows maxSeq result = (rows, Inr result)"
| "push_entries X sess k (e # es) rows maxSeq result =
     (if Content e = [] then push_entries X sess (Suc k) es rows maxSeq result
      else
        (let importance = normalize_importance (Importance e) in
         if length (Embedding e) > 0 \<and> isDuplicate X rows (Embedding e) (dedupThreshold sess)
         then push_entries X sess (Suc k) es rows maxSeq
                (result\<lparr>Deduplicated := Deduplicated result + 1\<rparr>)
         else
           (let tokens = estimateTokens (Content e) in
            if tokens > maxTokens sess then (rows, Inl ErrOverBudget)
            else
              (let maxSeq = maxSeq + 1;
                   id = generateID X k
               in if id \<in> set (map eid rows) then (rows, Inl ErrStorage)
                  else push_entries X sess (Suc k) es
                         (rows @ [\<lparr>eid = id, role = Role e, content = Content e,
                                   original_content = Content e, source = Source e,
                                   embedding = Embedding e, importance = importance,
                                   compression_level = 0, tokens = tokens, seq = maxSeq\<rparr>])
                         maxSeq (result\<lparr>Accepted := Accepted result + 1\<rparr>)))))"

text \<open>The second loop of \<^verbatim>\<open>Push\<close>: \<^verbatim>\<open>enforceBudget\<close> until a pass reports no progress.
  A run that never leaves the loop is the value \<open>None\<close>.\<close>

partial_function (option) enforce_loop ::
  "externals \<Rightarrow> sessionConfig \<Rightarrow> entry list \<Rightarrow> PushResult \<Rightarrow> (entry list \<times> PushResult) option" where
  "enforce_loop X sess rows result =
     (case enforceBudget X sess rows of
        (rows', c, e) \<Rightarrow>
          (let result' = result\<lparr>Compressed := Compressed result + c, Evicted := Evicted result + e\<rparr>
           in if c = 0 \<and> e = 0 then Some (rows', result')
              else enforce_loop X sess rows' result'))"

declare enforce_loop.simps [code]

text \<open>\<^verbatim>\<open>Push\<close>. \<open>sess\<close> is what \<^verbatim>\<open>loadSessionConfig\<close> finds for the request's session id
  (\<open>None\<close>: no such row), \<open>rows\<close> the rows of that session.\<close>

definition Push ::
  "externals \<Rightarrow> sessionConfig option \<Rightarrow> entry list \<Rightarrow> PushEntry list \<Rightarrow>
   (entry list \<times> (error + PushResult)) option" where
  "Push X sess_row rows entries =
     (case sess_row of
        None \<Rightarrow> Some (rows, Inl ErrSessionNotFound)
      | Some sess \<Rightarrow>
          (case push_entries X sess 0 entries rows (max_seq rows)
                  \<lparr>Accepted = 0, Deduplicated = 0, Compressed = 0, Evicted = 0,
                   CurrentTokens = 0, BudgetRemaining = 0\<rparr> of
             (rows1, Inl err) \<Rightarrow> Some (rows1, Inl err)
           | (rows1, Inr result) \<Rightarrow>
               (case enforce_loop X sess rows1 result of
                  None \<Rightarrow> None
                | Some (rows2, result2) \<Rightarrow>
                    Some (rows2,
                          Inr (result2\<lparr>CurrentTokens := sum_tokens rows2,
                                       BudgetRemaining := maxTokens sess - sum_tokens rows2\<rparr>)))))"

subsection \<open>Context\<close>

record ContextRequest =
  ctx_MaxTokens :: int
  ctx_Role :: string

text \<open>\<^verbatim>\<open>ContextEntry\<close> without its \<^verbatim>\<open>Age\<close> (a reading of the clock).\<close>

record ContextEntry =
  ce_ID :: string
  ce_Role :: string
  ce_Content :: string
  ce_Source :: string
  ce_Level :: int
  ce_Tokens :: int

record ContextStats =
  TotalEntries :: int
  TotalTokens :: int
  CompressionLevels :: "int \<Rightarrow> int"
  CompressionSavings :: int

text \<open>SQLite's \<^verbatim>\<open>LENGTH\<close> of a text: the characters before the first NUL, that is the
  bytes there that are not UTF-8 continuation bytes.\<close>

definition utf8_continuation :: "char \<Rightarrow> bool" where
  "utf8_continuation c \<longleftrightarrow> 128 \<le> (of_char c :: nat) \<and> (of_char c :: nat) < 192"

definition sql_LENGTH :: "string \<Rightarrow> int" where
  "sql_LENGTH s =
     int (length (filter (\<lambda>c. \<not> utf8_continuation c) (takeWhile (\<lambda>c. c \<noteq> CHR 0x00) s)))"

definition context_entry :: "entry \<Rightarrow> ContextEntry" where
  "context_entry r =
     \<lparr>ce_ID = eid r, ce_Role = role r, ce_Content = content r, ce_Source = source r,
      ce_Level = compression_level r, ce_Tokens = tokens r\<rparr>"

text \<open>The loop of \<^verbatim>\<open>Context\<close> over the selected rows.\<close>

fun context_walk ::
  "int \<Rightarrow> entry list \<Rightarrow> ContextEntry list \<Rightarrow> int \<Rightarrow> ContextEntry list \<times> int" where
  "context_walk reqMax [] entries tokenCount = (entries, tokenCount)"
| "context_walk reqMax (r # raw) entries tokenCount =
     (if reqMax > 0 \<and> tokenCount + tokens r > reqMax then (entries, tokenCount)
      else context_walk reqMax raw (entries @ [context_entry r]) (tokenCount + tokens r))"

text \<open>\<^verbatim>\<open>SELECT COALESCE(SUM(LENGTH(original_content)+3)/4, 0)\<close>: the division applies to
  the sum.\<close>

definition total_original_tokens :: "entry list \<Rightarrow> int" where
  "total_original_tokens rows =
     (if rows = [] then 0
      else sum_list (map (\<lambda>r. sql_LENGTH (original_content r) + 3) rows) div 4)"

text \<open>\<^verbatim>\<open>Context\<close>; \<open>exists\<close> is whether the session has a row in \<^verbatim>\<open>sessions\<close>.\<close>

definition Context ::
  "bool \<Rightarrow> entry list \<Rightarrow> ContextRequest \<Rightarrow> error + (ContextEntry list \<times> ContextStats)" where
  "Context exists rows req =
     (if \<not> exists then Inl ErrSessionNotFound
      else
        (let raw = by_seq (filter (\<lambda>r. ctx_Role req = [] \<or> role r = ctx_Role req) rows);
             (entries, tokenCount) = context_walk (ctx_MaxTokens req) raw [] 0;
             totalOriginalTokens = total_original_tokens rows
         in Inr (entries,
                 \<lparr>TotalEntries = int (length entries), TotalTokens = tokenCount,
                  CompressionLevels = (\<lambda>l. int (length (filter (\<lambda>e. ce_Level e = l) entries))),
                  CompressionSavings = totalOriginalTokens - tokenCount\<rparr>)))"

section \<open>Memory store (pkg/memory)\<close>

subsection \<open>Data model\<close>

text \<open>
  A row of \<^verbatim>\<open>memories\<close> and the junction table \<^verbatim>\<open>memory_tags\<close>, both in insertion order.
  The timestamp columns hold RFC 3339 texts of UTC instants; the model keeps the instant, in
  nanoseconds, and reads the comparisons of the statements as comparisons of instants. A
  \<^verbatim>\<open>time.Duration\<close> is a number of nanoseconds. The \<^verbatim>\<open>metadata\<close> column is left out: no
  modelled statement reads it. Failures of the database itself are not modelled, apart
  from the primary key of \<^verbatim>\<open>memories\<close>.
\<close>

record memory =
  m_id :: string
  m_text :: string
  m_embedding :: "real list"
  m_source :: string
  m_session_id :: string
  decay_level :: int
  created_at :: int
  last_referenced :: int
  access_count :: int

record memory_store =
  memories :: "memory list"
  memory_tags :: "(string \<times> string) list"

definition DecayFull :: int where "DecayFull = 0"
definition DecaySummary :: int where "DecaySummary = 1"
definition DecayKeywords :: int where "DecayKeywords = 2"

text \<open>\<^verbatim>\<open>Config\<close> of pkg/memory/store.go (the interval of the worker's ticker and the switch
  that starts it are not part of a pass).\<close>

record memory_Config =
  mem_DedupThreshold :: real
  SummaryAge :: int
  KeywordsAge :: int
  EvictAge :: int

record StoreEntry =
  se_Text :: string
  se_Embedding :: "real list"
  se_Source :: string
  se_Tags :: "string list"

record StoreResult =
  Stored :: int
  Merged :: int
  sr_Deduplicated :: int
  TotalMemories :: int

datatype memory_error = ErrNotFound | ErrEmptyText | ErrStoreClosed | ErrInvalidQuery | ErrMemoryStorage

subsection \<open>Store\<close>

text \<open>\<^verbatim>\<open>findDuplicate\<close>: the id of the first row, in the order of the scan, whose embedding is
  within the threshold; the empty string when there is none.\<close>

fun findDuplicate :: "externals \<Rightarrow> memory_Config \<Rightarrow> real list \<Rightarrow> memory list \<Rightarrow> string" where
  "findDuplicate X cfg emb [] = []"
| "findDuplicate X cfg emb (m # ms) =
     (if length (m_embedding m) = 0 then findDuplicate X cfg emb ms
      else if CosineDistance X emb (m_embedding m) < mem_DedupThreshold cfg then m_id m
      else findDuplicate X cfg emb ms)"

text \<open>\<^verbatim>\<open>UPDATE memories SET last_referenced = ?, access_count = access_count + 1 WHERE id = ?\<close>
  and, for \<^verbatim>\<open>touchMemories\<close>, \<^verbatim>\<open>WHERE id IN (...)\<close>.\<close>

definition touch :: "string list \<Rightarrow> int \<Rightarrow> memory list \<Rightarrow> memory list" where
  "touch ids now ms =
     map (\<lambda>m. if m_id m \<in> set ids
               then m\<lparr>last_referenced := now, access_count := access_count m + 1\<rparr> else m) ms"

text \<open>\<^verbatim>\<open>INSERT OR IGNORE INTO memory_tags\<close>, once for each tag of the entry.\<close>

fun insert_tags :: "string \<Rightarrow> string list \<Rightarrow> (string \<times> string) list \<Rightarrow> (string \<times> string) list" where
  "insert_tags i [] tbl = tbl"
| "insert_tags i (tag # tags) tbl =
     insert_tags i tags (if (i, tag) \<in> set tbl then tbl else tbl @ [(i, tag)])"

text \<open>
  The loop of \<^verbatim>\<open>Store\<close>. \<open>k\<close> counts the entries seen; \<open>clock k\<close> is the reading of
  \<^verbatim>\<open>time.Now()\<close> while the \<open>k\<close>-th entry is processed and \<open>generateID X k\<close> the id drawn
  for it. As in \<^verbatim>\<open>Push\<close>, what was written stays written when a later statement fails.
\<close>

fun store_entries ::
  "externals \<Rightarrow> memory_Config \<Rightarrow> (nat \<Rightarrow> int) \<Rightarrow> string \<Rightarrow> nat \<Rightarrow> StoreEntry list \<Rightarrow>
   memory_store \<Rightarrow> StoreResult \<Rightarrow> memory_store \<times> (memory_error + StoreResult)" where
  "store_entries X cfg clock sessionID k [] st result = (st, Inr result)"
| "store_entries X cfg clock sessionID k (entry # es) st result =
     (if se_Text entry = [] then store_entries X cfg clock sessionID (Suc k) es st result
      else
        (let dupID = (if length (se_Embedding entry) > 0
                      then findDuplicate X cfg (se_Embedding entry) (memories st) else [])
         in if length (se_Embedding entry) > 0 \<and> dupID \<noteq> [] then
              store_entries X cfg clock sessionID (Suc k) es
                (st\<lparr>memories := touch [dupID] (clock k) (memories st)\<rparr>)
                (result\<lparr>sr_Deduplicated := sr_Deduplicated result + 1\<rparr>)
            else
              (let id = generateID X k; now = clock k
               in if id \<in> set (map m_id (memories st)) then (st, Inl ErrMemoryStorage)
                  else store_entries X cfg clock sessionID (Suc k) es
                         (st\<lparr>memories := memories st @
                                [\<lparr>m_id = id, m_text = se_Text entry,
                                  m_embedding = se_Embedding entry, m_source = se_Source entry,
                                  m_session_id = sessionID, decay_level = 0, created_at = now,
                                  last_referenced = now, access_count = 0\<rparr>],
                             memory_tags := insert_tags id (se_Tags entry) (memory_tags st)\<rparr>)
                         (result\<lparr>Stored := Stored result + 1\<rparr>))))"

definition Store ::
  "externals \<Rightarrow> memory_Config \<Rightarrow> (nat \<Rightarrow> int) \<Rightarrow> string \<Rightarrow> StoreEntry list \<Rightarrow> memory_store \<Rightarrow>
   memory_store \<times> (memory_error + StoreResult)" where
  "Store X cfg clock sessionID entries st =
     (case store_entries X cfg clock sessionID 0 entries st
             \<lparr>Stored = 0, Merged = 0, sr_Deduplicated = 0, TotalMemories = 0\<rparr> of
        (st', Inl err) \<Rightarrow> (st', Inl err)
      | (st', Inr result) \<Rightarrow>
          (st', Inr (result\<lparr>TotalMemories := int (length (memories st'))\<rparr>)))"

subsection \<open>Recall\<close>













subsection \<open>The decay worker\<close>

text \<open>\<^verbatim>\<open>extractSummary\<close>: the text of the extractive compressor, or the text itself when
  the compressor returns nothing.\<close>

definition extractSummary :: "externals \<Rightarrow> string \<Rightarrow> string" where
  "extractSummary X text = (let result = Compress X text in if result \<noteq> [] then result else text)"

text \<open>\<^verbatim>\<open>decayRows\<close>: the rows selected by the query, then one \<^verbatim>\<open>UPDATE ... WHERE id = ?\<close>
  for each.\<close>

definition decay_update :: "string \<Rightarrow> string \<Rightarrow> int \<Rightarrow> memory list \<Rightarrow> memory list" where
  "decay_update i compressed toLevel ms =
     map (\<lambda>m. if m_id m = i then m\<lparr>m_text := compressed, decay_level := toLevel\<rparr> else m) ms"

fun decay_loop :: "(string \<Rightarrow> string) \<Rightarrow> int \<Rightarrow> (string \<times> string) list \<Rightarrow> memory list \<Rightarrow> memory list" where
  "decay_loop transform toLevel [] ms = ms"
| "decay_loop transform toLevel ((i, t) # entries) ms =
     decay_loop transform toLevel entries (decay_update i (transform t) toLevel ms)"

definition decayRows ::
  "int \<Rightarrow> int \<Rightarrow> int \<Rightarrow> (string \<Rightarrow> string) \<Rightarrow> memory_store \<Rightarrow> memory_store" where
  "decayRows cutoff fromLevel toLevel transform st =
     (let entries = map (\<lambda>m. (m_id m, m_text m))
                      (filter (\<lambda>m. last_referenced m < cutoff \<and> decay_level m = fromLevel)
                         (memories st))
      in st\<lparr>memories := decay_loop transform toLevel entries (memories st)\<rparr>)"

text \<open>The \<^verbatim>\<open>DELETE\<close> of the evict phase; the tags of a deleted row go with it (\<^verbatim>\<open>ON DELETE
  CASCADE\<close>).\<close>

definition evict :: "int \<Rightarrow> memory_store \<Rightarrow> memory_store" where
  "evict evictBefore st =
     (let kept = filter (\<lambda>m. \<not> (last_referenced m < evictBefore \<and> decay_level m \<ge> DecayKeywords))
                   (memories st)
      in \<lparr>memories = kept,
          memory_tags = filter (\<lambda>(i, tag). i \<in> set (map m_id kept)) (memory_tags st)\<rparr>)"

text \<open>\<^verbatim>\<open>runOnce\<close>, the pass of the worker; \<open>now\<close> is its one reading of the clock.\<close>

definition runOnce :: "externals \<Rightarrow> memory_Config \<Rightarrow> int \<Rightarrow> memory_store \<Rightarrow> memory_store" where
  "runOnce X cfg now st =
     (let st = (if EvictAge cfg > 0 then evict (now - EvictAge cfg) st else st);
          st = (if KeywordsAge cfg > 0
                then decayRows (now - KeywordsAge cfg) DecaySummary DecayKeywords
                       (extractKeywords 20) st
                else st);
          st = (if SummaryAge cfg > 0
                then decayRows (now - SummaryAge cfg) DecayFull DecaySummary (extractSummary X) st
                else st)
      in st)"

section \<open>The standard library's sort.Slice\<close>

text \<open>
  \<^verbatim>\<open>sortCandidates\<close> calls \<^verbatim>\<open>sort.Slice\<close> of the Go standard library, which is not among
  the repository's files. The properties of the session store take it as a parameter and
  assume of it that it permutes the slice. To evaluate the code where the order matters,
  this section transcribes what the library (package sort, file zsortfunc.go, Go 1.19 and
  later) does on a slice of at most 13 elements. \<^verbatim>\<open>sort.Slice\<close> calls \<^verbatim>\<open>pdqsort_func\<close>,
  which sorts a slice of at most 12 elements by insertion. On 13 elements it chooses a
  pivot, returns if the hint is increasing and the slice is in order, and otherwise
  partitions the slice around the pivot; both sides then have at most 12 elements and are
  sorted by insertion. (The limit is not 0, the first partitioning counts as balanced and
  \<open>a\<close> is 0, so the heap sort, \<^verbatim>\<open>breakPatterns_func\<close> and \<^verbatim>\<open>partitionEqual_func\<close> are not
  reached; with fewer than 50 elements there is no ninther and no decreasing hint.)
\<close>

text \<open>\<^verbatim>\<open>insertionSort_func\<close> of the Go library's sort package: what \<^verbatim>\<open>sort.Slice\<close> runs on
  a slice of at most 12 elements. An element moves left while it is less than its left
  neighbour.\<close>

fun insert_left :: "('a \<Rightarrow> 'a \<Rightarrow> bool) \<Rightarrow> 'a \<Rightarrow> 'a list \<Rightarrow> 'a list" where
  "insert_left lt x [] = [x]"
| "insert_left lt x (y # ys) =
     (if lt x y then y # insert_left lt x ys else x # y # ys)"

definition insertionSort :: "('a \<Rightarrow> 'a \<Rightarrow> bool) \<Rightarrow> 'a list \<Rightarrow> 'a list" where
  "insertionSort lt xs = rev (foldl (\<lambda>acc x. insert_left lt x acc) [] xs)"

text \<open>\<^verbatim>\<open>data.Swap(i, j)\<close>.\<close>

definition swap :: "nat \<Rightarrow> nat \<Rightarrow> 'a list \<Rightarrow> 'a list" where
  "swap i j data = data[i := data ! j, j := data ! i]"

text \<open>\<^verbatim>\<open>order2_func\<close>, \<^verbatim>\<open>median_func\<close> and \<^verbatim>\<open>choosePivot_func\<close> on a slice of 8 to 49
  elements, where the pivot is the median of the elements at one, two and three quarters;
  the second component says whether the hint is \<^verbatim>\<open>increasingHint\<close> (no swap was counted).\<close>

definition order2 :: "('a \<Rightarrow> 'a \<Rightarrow> bool) \<Rightarrow> 'a list \<Rightarrow> nat \<Rightarrow> nat \<Rightarrow> nat \<Rightarrow> nat \<times> nat \<times> nat" where
  "order2 lt data a b swaps =
     (if lt (data ! b) (data ! a) then (b, a, swaps + 1) else (a, b, swaps))"

definition median :: "('a \<Rightarrow> 'a \<Rightarrow> bool) \<Rightarrow> 'a list \<Rightarrow> nat \<Rightarrow> nat \<Rightarrow> nat \<Rightarrow> nat \<Rightarrow> nat \<times> nat" where
  "median lt data a b c swaps =
     (let (a, b, swaps) = order2 lt data a b swaps;
          (b, c, swaps) = order2 lt data b c swaps;
          (a, b, swaps) = order2 lt data a b swaps
      in (b, swaps))"

definition choosePivot :: "('a \<Rightarrow> 'a \<Rightarrow> bool) \<Rightarrow> 'a list \<Rightarrow> nat \<times> bool" where
  "choosePivot lt data =
     (let l = length data;
          i = l div 4 * 1; j = l div 4 * 2; k = l div 4 * 3;
          (j, swaps) = median lt data i j k 0
      in (j, swaps = 0))"

text \<open>\<^verbatim>\<open>partialInsertionSort_func\<close> on a slice of fewer than 50 elements: it changes nothing
  and returns whether no element is less than the one before it.\<close>

definition in_order :: "('a \<Rightarrow> 'a \<Rightarrow> bool) \<Rightarrow> 'a list \<Rightarrow> bool" where
  "in_order lt data = list_all (\<lambda>(x, y). \<not> lt y x) (zip data (tl data))"

text \<open>\<^verbatim>\<open>partition_func\<close> with \<open>a = 0\<close>: the two inner loops, the loop around them, and the
  swaps of the pivot to the front and back to its place.\<close>

function scan_up :: "('a \<Rightarrow> 'a \<Rightarrow> bool) \<Rightarrow> 'a list \<Rightarrow> nat \<Rightarrow> nat \<Rightarrow> nat" where
  "scan_up lt data i j =
     (if i \<le> j \<and> lt (data ! i) (data ! 0) then scan_up lt data (i + 1) j else i)"
  by pat_completeness auto
termination
  by (relation "measure (\<lambda>(lt, data, i, j). j + 1 - i)") auto

declare scan_up.simps [simp del]

fun scan_down :: "('a \<Rightarrow> 'a \<Rightarrow> bool) \<Rightarrow> 'a list \<Rightarrow> nat \<Rightarrow> nat \<Rightarrow> nat" where
  "scan_down lt data i 0 = 0"
| "scan_down lt data i (Suc j) =
     (if i \<le> Suc j \<and> \<not> lt (data ! Suc j) (data ! 0) then scan_down lt data i j else Suc j)"

lemma scan_up_ge: "i \<le> scan_up lt data i j"
  by (induction lt data i j rule: scan_up.induct) (subst scan_up.simps, auto)

lemma scan_down_le: "scan_down lt data i j \<le> j"
  by (induction j) auto

function partition_loop :: "('a \<Rightarrow> 'a \<Rightarrow> bool) \<Rightarrow> 'a list \<Rightarrow> nat \<Rightarrow> nat \<Rightarrow> 'a list \<times> nat" where
  "partition_loop lt data i j =
     (let i' = scan_up lt data i j;
          j' = scan_down lt data i' j
      in if i' > j' then (data, j')
         else partition_loop lt (swap i' j' data) (i' + 1) (j' - 1))"
  by pat_completeness auto
termination
proof (relation "measure (\<lambda>(lt, data, i, j). j + 1 - i)")
  fix lt :: "'a \<Rightarrow> 'a \<Rightarrow> bool" and data :: "'a list" and i j i' j' :: nat
  assume a: "i' = scan_up lt data i j" "j' = scan_down lt data i' j" "\<not> j' < i'"
  have "i \<le> i'" using a(1) scan_up_ge by simp
  moreover have "j' \<le> j" using a(2) scan_down_le by simp
  ultimately show "((lt, swap i' j' data, i' + 1, j' - 1), (lt, data, i, j))
      \<in> measure (\<lambda>(lt, data, i, j). j + 1 - i)"
    using a(3) by auto
qed simp

declare partition_loop.simps [simp del]

definition partition :: "('a \<Rightarrow> 'a \<Rightarrow> bool) \<Rightarrow> 'a list \<Rightarrow> nat \<Rightarrow> 'a list \<times> nat" where
  "partition lt data pivot =
     (let data = swap 0 pivot data;
          (data, j) = partition_loop lt data 1 (length data - 1)
      in (swap j 0 data, j))"

text \<open>\<^verbatim>\<open>pdqsort_func\<close> on 13 elements, as described above.\<close>

definition pdqsort_13 :: "('a \<Rightarrow> 'a \<Rightarrow> bool) \<Rightarrow> 'a list \<Rightarrow> 'a list" where
  "pdqsort_13 lt data =
     (let (pivot, increasing) = choosePivot lt data in
      if increasing \<and> in_order lt data then data
      else
        (let (data, mid) = partition lt data pivot
         in insertionSort lt (take mid data) @ [data ! mid] @
            insertionSort lt (drop (mid + 1) data)))"

text \<open>\<^verbatim>\<open>sort.Slice\<close> on a slice of at most 13 elements. A longer slice is left as it is
  here: the rest of the algorithm is not transcribed, and nothing below evaluates it there.\<close>

definition sort_Slice_go :: "('a \<Rightarrow> 'a \<Rightarrow> bool) \<Rightarrow> 'a list \<Rightarrow> 'a list" where
  "sort_Slice_go lt x =
     (if length x \<le> 12 then insertionSort lt x
      else if length x = 13 then pdqsort_13 lt x
      else x)"

section \<open>Inputs for evaluation\<close>

definition demo_externals :: externals where
  "demo_externals =
     \<lparr>CosineDistance = (\<lambda>a b. if a = b then 0 else 1),
      Compress = (\<lambda>text. take (length text div 5) text),
      sort_Slice = insertionSort,
      generateID = (\<lambda>k. replicate (Suc k) (CHR ''x''))\<rparr>"


text \<open>Sessions and requests for evaluation.\<close>

definition demo_session :: sessionConfig where
  "demo_session = \<lparr>maxTokens = 6, dedupThreshold = 0.15, preserveRecent = 1\<rparr>"

definition tight_session :: sessionConfig where
  "tight_session = \<lparr>maxTokens = 1, dedupThreshold = 0.15, preserveRecent = 1\<rparr>"

definition entry_long :: PushEntry where
  "entry_long = \<lparr>Role = ''user'', Content = ''aaaa bbbb cccc dddd.'', Source = [],
                  Embedding = [], Importance = 0\<rparr>"

definition entry_short :: PushEntry where
  "entry_short = \<lparr>Role = ''tool'', Content = ''eeee ffff'', Source = [],
                   Embedding = [], Importance = 1\<rparr>"

definition entry_tiny :: PushEntry where
  "entry_tiny = \<lparr>Role = ''user'', Content = ''ab'', Source = [], Embedding = [],
                  Importance = 0\<rparr>"

definition row_old :: entry where
  "row_old = \<lparr>eid = ''old'', role = ''user'', content = ''a'', original_content = ''a'',
               source = [], embedding = [], importance = 0.5, compression_level = 0,
               tokens = 1, seq = 1\<rparr>"

definition rows_compressed :: "entry list" where
  "rows_compressed =
     [\<lparr>eid = ''x'', role = ''user'', content = ''aaaa'',
       original_content = ''aaaa bbbb cccc dddd.'', source = [], embedding = [],
       importance = 1 / 2, compression_level = 1, tokens = 1, seq = 1\<rparr>,
      \<lparr>eid = ''xx'', role = ''tool'', content = ''eeee ffff'', original_content = ''eeee ffff'',
       source = [], embedding = [], importance = 1, compression_level = 0, tokens = 3,
       seq = 2\<rparr>]"

definition rows_over :: "entry list" where
  "rows_over =
     [\<lparr>eid = ''a'', role = ''user'', content = ''aaaa bbbb cccc dddd.'',
       original_content = ''aaaa bbbb cccc dddd.'', source = [], embedding = [],
       importance = 0.5, compression_level = 0, tokens = 5, seq = 1\<rparr>,
      \<lparr>eid = ''b'', role = ''tool'', content = ''eeee ffff'', original_content = ''eeee ffff'',
       source = [], embedding = [], importance = 1, compression_level = 0, tokens = 3,
       seq = 2\<rparr>]"

definition wide_session :: sessionConfig where
  "wide_session = \<lparr>maxTokens = 100, dedupThreshold = 0.15, preserveRecent = 10\<rparr>"

definition entry_abcd :: PushEntry where
  "entry_abcd = \<lparr>Role = ''user'', Content = ''abcd'', Source = [], Embedding = [], Importance = 0\<rparr>"

definition entry_efgh :: PushEntry where
  "entry_efgh = \<lparr>Role = ''tool'', Content = ''efgh'', Source = [], Embedding = [], Importance = 0\<rparr>"

definition rows_abcd_efgh :: "entry list" where
  "rows_abcd_efgh =
     [\<lparr>eid = ''x'', role = ''user'', content = ''abcd'', original_content = ''abcd'',
       source = [], embedding = [], importance = 1 / 2, compression_level = 0, tokens = 1,
       seq = 1\<rparr>,
      \<lparr>eid = ''xx'', role = ''tool'', content = ''efgh'', original_content = ''efgh'',
       source = [], embedding = [], importance = 1 / 2, compression_level = 0, tokens = 1,
       seq = 2\<rparr>]"

definition savings_of :: "error + (ContextEntry list \<times> ContextStats) \<Rightarrow> int option" where
  "savings_of out = (case out of Inl err \<Rightarrow> None | Inr (entries, stats) \<Rightarrow> Some (CompressionSavings stats))"

definition memory_cfg :: memory_Config where
  "memory_cfg = \<lparr>mem_DedupThreshold = 0.15, SummaryAge = 10, KeywordsAge = 20, EvictAge = 30\<rparr>"

definition mem_row :: "string \<Rightarrow> string \<Rightarrow> real list \<Rightarrow> int \<Rightarrow> int \<Rightarrow> memory" where
  "mem_row i t emb level ref =
     \<lparr>m_id = i, m_text = t, m_embedding = emb, m_source = [], m_session_id = [],
      decay_level = level, created_at = 0, last_referenced = ref, access_count = 0\<rparr>"

definition store_three :: memory_store where
  "store_three =
     \<lparr>memories = [mem_row ''m1'' ''The service signs tokens with RS256 keys.'' [1, 0] 0 50,
                  mem_row ''m2'' ''Refresh tokens live in Redis for seven days.'' [0, 1] 1 50,
                  mem_row ''m3'' ''tokens, redis'' [] 2 50,
                  mem_row ''m4'' ''Fresh note about payments.'' [] 0 95],
      memory_tags = [(''m1'', ''auth''), (''m3'', ''auth'')]\<rparr>"




definition store_entry_E :: StoreEntry where
  "store_entry_E = \<lparr>se_Text = ''JWT uses RS256'', se_Embedding = [1, 0], se_Source = ''docs'', se_Tags = [''auth'']\<rparr>"

definition no_dedup_cfg :: memory_Config where
  "no_dedup_cfg = memory_cfg\<lparr>mem_DedupThreshold := 0\<rparr>"

definition later_externals :: externals where
  "later_externals = demo_externals\<lparr>generateID := (\<lambda>k. replicate (Suc k) (CHR ''y''))\<rparr>"

definition stored_E :: "string \<Rightarrow> int \<Rightarrow> memory" where
  "stored_E i t =
     \<lparr>m_id = i, m_text = ''JWT uses RS256'', m_embedding = [1, 0], m_source = ''docs'',
      m_session_id = [], decay_level = 0, created_at = t, last_referenced = t, access_count = 0\<rparr>"

definition go_externals :: externals where
  "go_externals = demo_externals\<lparr>sort_Slice := sort_Slice_go\<rparr>"

definition session_69 :: sessionConfig where
  "session_69 = \<lparr>maxTokens = 69, dedupThreshold = 0.15, preserveRecent = 1\<rparr>"

definition fourteen_entries :: "PushEntry list" where
  "fourteen_entries = entry_long\<lparr>Importance := 1\<rparr> # replicate 13 entry_long"

definition levels_by_seq :: "(entry list \<times> (error + PushResult)) option \<Rightarrow> (int \<times> real \<times> int) list" where
  "levels_by_seq out =
     (case out of
        Some (rows, Inr res) \<Rightarrow> map (\<lambda>r. (seq r, importance r, compression_level r)) (by_seq rows)
      | _ \<Rightarrow> [])"

section \<open>Vocabulary of the statements\<close>

text \<open>What \<^verbatim>\<open>sort.Slice\<close> does for every \<open>less\<close> function: it only swaps elements, so its
  result is a permutation of the slice.\<close>

definition sort_Slice_permutes :: "externals \<Rightarrow> bool" where
  "sort_Slice_permutes X \<longleftrightarrow> (\<forall>lt xs. mset (sort_Slice X lt xs) = mset xs)"

text \<open>The indices from 1 to \<open>n\<close> at which a text has a space character.\<close>

definition space_positions :: "string \<Rightarrow> nat \<Rightarrow> nat set" where
  "space_positions s n = {i. 1 \<le> i \<and> i \<le> n \<and> s ! i = CHR '' ''}"

text \<open>The row that the first loop of \<^verbatim>\<open>Push\<close> inserts for an accepted entry.\<close>

definition stored_from :: "sessionConfig \<Rightarrow> PushEntry \<Rightarrow> entry \<Rightarrow> bool" where
  "stored_from sess e r \<longleftrightarrow>
     Content e \<noteq> [] \<and> content r = Content e \<and> original_content r = Content e \<and>
     importance r = normalize_importance (Importance e) \<and> compression_level r = 0 \<and>
     tokens r = estimateTokens (Content e) \<and> tokens r \<le> maxTokens sess"



text \<open>The measure of the loop of \<^verbatim>\<open>Push\<close>: for each row, one plus the number of levels
  from its level up to and including \<^verbatim>\<open>LevelKeywords\<close>.\<close>

definition pass_measure :: "entry list \<Rightarrow> nat" where
  "pass_measure rows = sum_list (map (\<lambda>r. nat (4 - compression_level r) + 1) rows)"

text \<open>Every candidate still to be processed has its row, at the level that was read.\<close>

definition candidates_match :: "compressCandidate list \<Rightarrow> entry list \<Rightarrow> bool" where
  "candidates_match cs rows \<longleftrightarrow>
     (\<forall>c\<in>set cs. \<exists>r\<in>set rows. eid r = c_id c \<and> compression_level r = c_level c)"

text \<open>A stored row that \<^verbatim>\<open>findDuplicate\<close> takes for a duplicate of an embedding.\<close>

definition near_duplicate :: "externals \<Rightarrow> memory_Config \<Rightarrow> real list \<Rightarrow> memory \<Rightarrow> bool" where
  "near_duplicate X cfg emb m \<longleftrightarrow>
     m_embedding m \<noteq> [] \<and> CosineDistance X emb (m_embedding m) < mem_DedupThreshold cfg"




text \<open>
  What a pass of the decay worker does to one row: \<open>evicted\<close> says whether the first phase
  deletes it, \<open>decay_step\<close> what becomes of a row that stays.
\<close>

definition evicted :: "memory_Config \<Rightarrow> int \<Rightarrow> memory \<Rightarrow> bool" where
  "evicted cfg now m \<longleftrightarrow>
     EvictAge cfg > 0 \<and> last_referenced m < now - EvictAge cfg \<and> decay_level m \<ge> DecayKeywords"


section \<open>Properties of the session store\<close>

subsection \<open>The library sort on short slices\<close>

lemma mset_insert_left: "mset (insert_left lt x acc) = add_mset x (mset acc)"
  by (induction acc) auto

lemma mset_foldl_insert_left:
  "mset (foldl (\<lambda>acc x. insert_left lt x acc) acc xs) = mset acc + mset xs"
  by (induction xs arbitrary: acc) (auto simp: mset_insert_left)

lemma mset_insertionSort: "mset (insertionSort lt xs) = mset xs"
  by (simp add: insertionSort_def mset_foldl_insert_left)


subsection \<open>The sentence level of the cascade\<close>









lemma space_positions_code [code]:
  "space_positions s n = set (filter (\<lambda>i. s ! i = CHR '' '') [1..<Suc n])"
  by (auto simp: space_positions_def)




subsection \<open>The first loop of Push\<close>

lemma push_entries_Cons_cases:
  assumes "push_entries X sess k (e # es) rows m res = (rows', out)"
  obtains
    (skip) "Content e = []" "push_entries X sess (Suc k) es rows m res = (rows', out)"
  | (dup) "Content e \<noteq> []" "Embedding e \<noteq> []"
      "isDuplicate X rows (Embedding e) (dedupThreshold sess)"
      "push_entries X sess (Suc k) es rows m (res\<lparr>Deduplicated := Deduplicated res + 1\<rparr>)
         = (rows', out)"
  | (over) "Content e \<noteq> []"
      "\<not> (length (Embedding e) > 0 \<and> isDuplicate X rows (Embedding e) (dedupThreshold sess))"
      "estimateTokens (Content e) > maxTokens sess" "rows' = rows" "out = Inl ErrOverBudget"
  | (clash) "Content e \<noteq> []"
      "\<not> (length (Embedding e) > 0 \<and> isDuplicate X rows (Embedding e) (dedupThreshold sess))"
      "estimateTokens (Content e) \<le> maxTokens sess" "generateID X k \<in> set (map eid rows)"
      "rows' = rows" "out = Inl ErrStorage"
  | (accept) "Content e \<noteq> []"
      "\<not> (length (Embedding e) > 0 \<and> isDuplicate X rows (Embedding e) (dedupThreshold sess))"
      "estimateTokens (Content e) \<le> maxTokens sess" "generateID X k \<notin> set (map eid rows)"
      "push_entries X sess (Suc k) es
         (rows @ [\<lparr>eid = generateID X k, role = Role e, content = Content e,
                   original_content = Content e, source = Source e,
                   embedding = Embedding e,
                   importance = normalize_importance (Importance e),
                   compression_level = 0, tokens = estimateTokens (Content e),
                   seq = m + 1\<rparr>])
         (m + 1) (res\<lparr>Accepted := Accepted res + 1\<rparr>) = (rows', out)"
  using assms by (auto simp: Let_def split: if_splits)

lemma push_entries_appends:
  "push_entries X sess k es rows m res = (rows', out) \<Longrightarrow>
   \<exists>added. rows' = rows @ added \<and> (\<forall>r\<in>set added. \<exists>e\<in>set es. stored_from sess e r)"
proof (induction es arbitrary: k rows m res)
  case Nil
  then show ?case by simp
next
  case (Cons e es)
  from Cons.prems show ?case
  proof (cases rule: push_entries_Cons_cases)
    case skip
    from Cons.IH[OF skip(2)] show ?thesis by auto
  next
    case dup
    from Cons.IH[OF dup(4)] show ?thesis by auto
  next
    case over
    then show ?thesis by simp
  next
    case clash
    then show ?thesis by simp
  next
    case accept
    from Cons.IH[OF accept(5)]
    obtain added where a: "rows' = (rows @ [\<lparr>eid = generateID X k, role = Role e, content = Content e,
                   original_content = Content e, source = Source e,
                   embedding = Embedding e,
                   importance = normalize_importance (Importance e),
                   compression_level = 0, tokens = estimateTokens (Content e),
                   seq = m + 1\<rparr>]) @ added"
      and b: "\<forall>r\<in>set added. \<exists>e\<in>set es. stored_from sess e r"
      by blast
    have c: "stored_from sess e \<lparr>eid = generateID X k, role = Role e, content = Content e,
                   original_content = Content e, source = Source e,
                   embedding = Embedding e,
                   importance = normalize_importance (Importance e),
                   compression_level = 0, tokens = estimateTokens (Content e),
                   seq = m + 1\<rparr>"
      using accept(1,3) by (simp add: stored_from_def)
    show ?thesis
      by (rule exI[of _ "\<lparr>eid = generateID X k, role = Role e, content = Content e,
                   original_content = Content e, source = Source e,
                   embedding = Embedding e,
                   importance = normalize_importance (Importance e),
                   compression_level = 0, tokens = estimateTokens (Content e),
                   seq = m + 1\<rparr> # added"]) (use a b c in auto)
  qed
qed

lemma push_entries_distinct:
  "push_entries X sess k es rows m res = (rows', out) \<Longrightarrow> distinct (map eid rows) \<Longrightarrow>
   distinct (map eid rows')"
proof (induction es arbitrary: k rows m res)
  case Nil
  then show ?case by simp
next
  case (Cons e es)
  from Cons.prems(1) show ?case
  proof (cases rule: push_entries_Cons_cases)
    case skip
    from Cons.IH[OF skip(2) Cons.prems(2)] show ?thesis .
  next
    case dup
    from Cons.IH[OF dup(4) Cons.prems(2)] show ?thesis .
  next
    case over
    then show ?thesis using Cons.prems(2) by simp
  next
    case clash
    then show ?thesis using Cons.prems(2) by simp
  next
    case accept
    show ?thesis
      by (rule Cons.IH[OF accept(5)]) (use accept(4) Cons.prems(2) in simp)
  qed
qed

lemma push_entries_accepted:
  "push_entries X sess k es rows m res = (rows', Inr res') \<Longrightarrow>
   Accepted res' = Accepted res + int (length rows') - int (length rows)"
proof (induction es arbitrary: k rows m res)
  case Nil
  then show ?case by simp
next
  case (Cons e es)
  from Cons.prems(1) show ?case
  proof (cases rule: push_entries_Cons_cases)
    case skip
    from Cons.IH[OF skip(2)] show ?thesis .
  next
    case dup
    from Cons.IH[OF dup(4)] show ?thesis by simp
  next
    case accept
    from Cons.IH[OF accept(5)] show ?thesis by simp
  qed simp_all
qed

text \<open>An oversized entry ends the loop whatever follows it.\<close>

lemma push_entries_over_budget:
  assumes "push_entries X sess k pre rows m res = (rows1, Inr res1)"
    and "Content e \<noteq> []"
    and "\<not> (length (Embedding e) > 0 \<and> isDuplicate X rows1 (Embedding e) (dedupThreshold sess))"
    and "estimateTokens (Content e) > maxTokens sess"
  shows "push_entries X sess k (pre @ e # post) rows m res = (rows1, Inl ErrOverBudget)"
  using assms(1)
proof (induction pre arbitrary: k rows m res)
  case Nil
  then show ?case using assms(2-4) by (auto simp: Let_def)
next
  case (Cons p pre)
  from Cons.prems show ?case
  proof (cases rule: push_entries_Cons_cases)
    case skip
    with Cons.IH[OF skip(2)] show ?thesis by simp
  next
    case dup
    with Cons.IH[OF dup(4)] show ?thesis by (auto simp: Let_def)
  next
    case accept
    with Cons.IH[OF accept(5)] show ?thesis by (auto simp: Let_def)
  qed simp_all
qed


text \<open>
  C2, as amended. \<^verbatim>\<open>Push\<close> takes the entries of a request in order. When the entries \<open>pre\<close>
  before an entry have been processed without error, and that entry is not empty, is not
  skipped as a duplicate and has more estimated tokens than \<open>max_tokens\<close>, \<^verbatim>\<open>Push\<close> returns
  OverBudget at once: the entries after it are not looked at and the budget is not
  enforced. The rows of the session are then the rows before the call, none of them
  modified, followed by one row for each entry of \<open>pre\<close> that was accepted; when none
  was, the session is exactly as before.
\<close>

theorem C2_over_budget:
  assumes "push_entries X sess 0 pre rows (max_seq rows)
             \<lparr>Accepted = 0, Deduplicated = 0, Compressed = 0, Evicted = 0,
              CurrentTokens = 0, BudgetRemaining = 0\<rparr> = (rows1, Inr res1)"
    and "Content e \<noteq> []"
    and "\<not> (length (Embedding e) > 0 \<and> isDuplicate X rows1 (Embedding e) (dedupThreshold sess))"
    and "estimateTokens (Content e) > maxTokens sess"
  shows "Push X (Some sess) rows (pre @ e # post) = Some (rows1, Inl ErrOverBudget) \<and>
         (\<exists>added. rows1 = rows @ added \<and> int (length added) = Accepted res1)"
proof -
  have "push_entries X sess 0 (pre @ e # post) rows (max_seq rows)
          \<lparr>Accepted = 0, Deduplicated = 0, Compressed = 0, Evicted = 0,
           CurrentTokens = 0, BudgetRemaining = 0\<rparr> = (rows1, Inl ErrOverBudget)"
    by (rule push_entries_over_budget[OF assms])
  then have "Push X (Some sess) rows (pre @ e # post) = Some (rows1, Inl ErrOverBudget)"
    by (simp add: Push_def)
  moreover from push_entries_appends[OF assms(1)] obtain added where "rows1 = rows @ added"
    by blast
  moreover from push_entries_accepted[OF assms(1)]
  have "Accepted res1 = int (length rows1) - int (length rows)" by simp
  ultimately show ?thesis by auto
qed

text \<open>C2 at a request whose first entry is too large for a session that holds one row:
  the session is left as it was.\<close>

theorem C2_over_budget_witness:
  "Push demo_externals (Some tight_session) [row_old] ([] @ entry_short # [entry_tiny])
     = Some ([row_old], Inl ErrOverBudget) \<and>
   (\<exists>added. [row_old] = [row_old] @ added \<and> int (length added) = 0)"
proof -
  have "push_entries demo_externals tight_session 0 [] [row_old] (max_seq [row_old])
          \<lparr>Accepted = 0, Deduplicated = 0, Compressed = 0, Evicted = 0,
           CurrentTokens = 0, BudgetRemaining = 0\<rparr>
        = ([row_old], Inr \<lparr>Accepted = 0, Deduplicated = 0, Compressed = 0, Evicted = 0,
                           CurrentTokens = 0, BudgetRemaining = 0\<rparr>)"
    by simp
  from C2_over_budget[OF this, of entry_short "[entry_tiny]"] show ?thesis
    by (simp add: entry_short_def tight_session_def estimateTokens_def)
qed

text \<open>
  C2 as it was stated fails when an entry of the same request was accepted before the
  oversized one: \<^verbatim>\<open>Push\<close> returns OverBudget and the earlier entry stays inserted.
\<close>

theorem C2_earlier_entry_counterexample:
  "Push demo_externals (Some tight_session) [] [entry_tiny, entry_short]
     = Some ([\<lparr>eid = ''x'', role = ''user'', content = ''ab'', original_content = ''ab'',
               source = [], embedding = [], importance = 1 / 2, compression_level = 0,
               tokens = 1, seq = 1\<rparr>], Inl ErrOverBudget)"
  by code_simp


subsection \<open>What enforcement keeps of a row\<close>













lemma Push_demo_two:
  "Push demo_externals (Some demo_session) [] [entry_long, entry_short]
     = Some (rows_compressed,
            Inr \<lparr>Accepted = 2, Deduplicated = 0, Compressed = 1, Evicted = 0,
                 CurrentTokens = 4, BudgetRemaining = 2\<rparr>)"
  by code_simp




subsection \<open>The budget after Push\<close>

lemma by_seq_Nil: "(by_seq rows = []) = (rows = [])"
  by (metis by_seq_def length_0_conv length_sort)

lemma compress_loop_counters:
  "compress_loop X cfg cs rows cur c e = (rows', c', e') \<Longrightarrow>
   c \<le> c' \<and> e \<le> e' \<and> (cs \<noteq> [] \<and> maxTokens cfg < cur \<longrightarrow> c + e < c' + e')"
proof (induction cs arbitrary: rows cur c e)
  case Nil
  then show ?case by simp
next
  case (Cons a cs)
  show ?case
  proof (cases "cur \<le> maxTokens cfg")
    case True
    with Cons.prems show ?thesis by simp
  next
    case over: False
    show ?thesis
    proof (cases "c_level a + 1 > LevelKeywords")
      case True
      with over Cons.prems have "compress_loop X cfg cs (delete_id (c_id a) rows)
          (cur - c_tokens a) c (e + 1) = (rows', c', e')"
        by (simp add: Let_def)
      from Cons.IH[OF this] over show ?thesis by simp
    next
      case False
      with over Cons.prems have "compress_loop X cfg cs
          (update_id (c_id a) (compressToLevel X (c_originalContent a) (c_level a + 1))
             (c_level a + 1) (estimateTokens (compressToLevel X (c_originalContent a) (c_level a + 1))) rows)
          (cur - (c_tokens a - estimateTokens (compressToLevel X (c_originalContent a) (c_level a + 1))))
          (c + 1) e = (rows', c', e')"
        by (simp add: Let_def)
      from Cons.IH[OF this] over show ?thesis by simp
    qed
  qed
qed

lemma evictOldest_counters:
  "evictOldest cfg rows cur ev = (rows', c', e') \<Longrightarrow>
   c' = 0 \<and> ev \<le> e' \<and> (e' = ev \<longrightarrow> rows' = rows \<and> (cur \<le> maxTokens cfg \<or> rows = []))"
proof (induction cfg rows cur ev rule: evictOldest.induct)
  case (1 cfg rows cur ev)
  show ?case
  proof (cases "cur > maxTokens cfg")
    case False
    with "1.prems" show ?thesis by (subst (asm) evictOldest.simps) auto
  next
    case True
    show ?thesis
    proof (cases "by_seq rows")
      case Nil
      then have "rows = []" by (simp add: by_seq_Nil)
      with True "1.prems" Nil show ?thesis by (subst (asm) evictOldest.simps) auto
    next
      case (Cons r rs)
      with True "1.prems" have "evictOldest cfg (delete_id (eid r) rows) (cur - tokens r) (ev + 1)
          = (rows', c', e')"
        by (subst (asm) evictOldest.simps) simp
      from "1.IH"[OF True Cons this] show ?thesis by auto
    qed
  qed
qed

lemma enforceBudget_no_progress:
  assumes "sort_Slice_permutes X" and "enforceBudget X cfg rows = (rows', 0, 0)"
  shows "rows' = rows \<and> (sum_tokens rows \<le> maxTokens cfg \<or> rows = [])"
proof (cases "sum_tokens rows \<le> maxTokens cfg")
  case True
  with assms(2) show ?thesis by (simp add: enforceBudget_def)
next
  case over: False
  show ?thesis
  proof (cases "int (length rows) - preserveRecent cfg \<le> 0")
    case True
    with over assms(2) have "evictOldest cfg rows (sum_tokens rows) 0 = (rows', 0, 0)"
      by (simp add: enforceBudget_def Let_def)
    from evictOldest_counters[OF this] over show ?thesis by simp
  next
    case False
    let ?cands = "sortCandidates X (map candidate_of
        (take (nat (int (length rows) - preserveRecent cfg)) (by_seq rows)))"
    from False over assms(2)
    have run: "compress_loop X cfg ?cands rows (sum_tokens rows) 0 0 = (rows', 0, 0)"
      by (simp add: enforceBudget_def Let_def)
    from compress_loop_counters[OF run] over have "?cands = []" by auto
    then have "mset ?cands = {#}" by simp
    moreover have "mset ?cands = mset (map candidate_of
        (take (nat (int (length rows) - preserveRecent cfg)) (by_seq rows)))"
      using assms(1) by (simp add: sortCandidates_def sort_Slice_permutes_def)
    ultimately have "take (nat (int (length rows) - preserveRecent cfg)) (by_seq rows) = []"
      by simp
    with False have "by_seq rows = []" by (auto simp: take_eq_Nil)
    then have "rows = []" by (simp add: by_seq_Nil)
    moreover from run \<open>?cands = []\<close> have "rows' = rows" by simp
    ultimately show ?thesis by simp
  qed
qed

lemma enforce_loop_budget:
  assumes "enforce_loop X sess rows res = Some y" and "sort_Slice_permutes X"
  shows "sum_tokens (fst y) \<le> maxTokens sess \<or> fst y = []"
proof -
  have "sort_Slice_permutes X \<longrightarrow> sum_tokens (fst y) \<le> maxTokens sess \<or> fst y = []"
  proof (rule enforce_loop.raw_induct[where
      P = "\<lambda>X sess rows res y. sort_Slice_permutes X \<longrightarrow>
             sum_tokens (fst y) \<le> maxTokens sess \<or> fst y = []", OF _ assms(1)])
  fix f X sess rows res y
  assume IH: "\<And>X sess rows res y. f X sess rows res = Some y \<Longrightarrow>
        sort_Slice_permutes X \<longrightarrow> sum_tokens (fst y) \<le> maxTokens sess \<or> fst y = []"
    and body: "(case enforceBudget X sess rows of
        (rows', c, e) \<Rightarrow>
          let result' = res\<lparr>Compressed := Compressed res + c, Evicted := Evicted res + e\<rparr>
          in if c = 0 \<and> e = 0 then Some (rows', result') else f X sess rows' result') = Some y"
  obtain rows1 c e where eb: "enforceBudget X sess rows = (rows1, c, e)"
    by (cases "enforceBudget X sess rows") auto
  show "sort_Slice_permutes X \<longrightarrow> sum_tokens (fst y) \<le> maxTokens sess \<or> fst y = []"
  proof
    assume perm: "sort_Slice_permutes X"
    show "sum_tokens (fst y) \<le> maxTokens sess \<or> fst y = []"
    proof (cases "c = 0 \<and> e = 0")
      case True
      with body eb have y: "fst y = rows1" by (auto simp: Let_def)
      from True eb have "enforceBudget X sess rows = (rows1, 0, 0)" by simp
      from enforceBudget_no_progress[OF perm this] y show ?thesis by auto
    next
      case False
      with body eb have "f X sess rows1
          (res\<lparr>Compressed := Compressed res + c, Evicted := Evicted res + e\<rparr>) = Some y"
        by (auto simp: Let_def)
      from IH[OF this] perm show ?thesis by simp
    qed
  qed
  qed
  with assms(2) show ?thesis by simp
qed

lemma sum_tokens_Nil: "sum_tokens [] = 0"
  by (simp add: sum_tokens_def)

lemma Create_config_positive:
  "0 < DefaultMaxTokens cfg \<Longrightarrow> 0 < maxTokens (Create_config cfg req)"
  by (simp add: Create_config_def)

text \<open>
  C1. When \<^verbatim>\<open>Push\<close> returns without error, the tokens of the rows that remain sum to at
  most \<open>max_tokens\<close>, or no row remains and \<open>max_tokens\<close> is negative; \<^verbatim>\<open>Create\<close> stores a
  negative budget only under a configuration whose default is negative, and all remaining
  entries, there being none, lie within the \<open>preserve_recent\<close> tail then. The result
  reports the sum and what is left of the budget. The case that the claim sets apart does
  not leave a session above a budget that is 0 or more: the fallback eviction deletes
  oldest rows until the sum is within the budget. The sort of the library is taken to
  permute the candidates.
\<close>

theorem C1_budget_after_push:
  assumes "sort_Slice_permutes X"
    and "Push X (Some sess) rows entries = Some (rows', Inr res)"
  shows "(sum_tokens rows' \<le> maxTokens sess \<or> (rows' = [] \<and> maxTokens sess < 0)) \<and>
         CurrentTokens res = sum_tokens rows' \<and>
         BudgetRemaining res = maxTokens sess - sum_tokens rows'"
proof -
  let ?r0 = "\<lparr>Accepted = 0, Deduplicated = 0, Compressed = 0, Evicted = 0,
              CurrentTokens = 0, BudgetRemaining = 0\<rparr>"
  obtain rows1 out1 where pe: "push_entries X sess 0 entries rows (max_seq rows) ?r0 = (rows1, out1)"
    by (cases "push_entries X sess 0 entries rows (max_seq rows) ?r0") auto
  from assms(2) pe obtain res1 where o: "out1 = Inr res1"
    by (cases out1) (auto simp: Push_def)
  from assms(2) pe o obtain res2 where
    el: "enforce_loop X sess rows1 res1 = Some (rows', res2)" and
    r: "res = res2\<lparr>CurrentTokens := sum_tokens rows',
                     BudgetRemaining := maxTokens sess - sum_tokens rows'\<rparr>"
    by (auto simp: Push_def split: option.splits)
  from enforce_loop_budget[OF el assms(1)]
  have "sum_tokens rows' \<le> maxTokens sess \<or> (rows' = [] \<and> maxTokens sess < 0)"
    by (auto simp: sum_tokens_Nil)
  with r show ?thesis by simp
qed

lemma demo_sort_Slice_permutes: "sort_Slice_permutes demo_externals"
  by (simp add: sort_Slice_permutes_def demo_externals_def mset_insertionSort)

text \<open>C1 at a request of two entries of 5 and 3 tokens on a session with a budget of 6:
  the older entry is compressed and the sum is 4.\<close>

theorem C1_budget_after_push_witness:
  "(sum_tokens rows_compressed \<le> maxTokens demo_session \<or>
      (rows_compressed = [] \<and> maxTokens demo_session < 0)) \<and>
   CurrentTokens \<lparr>Accepted = 2, Deduplicated = 0, Compressed = 1, Evicted = 0,
                  CurrentTokens = 4, BudgetRemaining = 2\<rparr> = sum_tokens rows_compressed \<and>
   BudgetRemaining \<lparr>Accepted = 2, Deduplicated = 0, Compressed = 1, Evicted = 0,
                    CurrentTokens = 4, BudgetRemaining = 2\<rparr>
     = maxTokens demo_session - sum_tokens rows_compressed"
  by (rule C1_budget_after_push[OF demo_sort_Slice_permutes Push_demo_two])


subsection \<open>The order of the candidates\<close>

lemma filter_insert_left:
  "filter (\<lambda>c. c_importance c = k) (insert_left (\<lambda>a b. c_importance a < c_importance b) x acc) =
     (if c_importance x = k then x # filter (\<lambda>c. c_importance c = k) acc
      else filter (\<lambda>c. c_importance c = k) acc)"
  by (induction acc) auto

lemma set_insert_left: "set (insert_left lt x acc) = insert x (set acc)"
  by (induction acc) auto

lemma sorted_insert_left:
  "sorted_wrt (\<lambda>a b. c_importance b \<le> c_importance a) acc \<Longrightarrow>
   sorted_wrt (\<lambda>a b. c_importance b \<le> c_importance a)
     (insert_left (\<lambda>a b. c_importance a < c_importance b) x acc)"
  by (induction acc) (auto simp: set_insert_left)

lemma foldl_insert_left:
  "sorted_wrt (\<lambda>a b. c_importance b \<le> c_importance a) acc \<Longrightarrow>
   sorted_wrt (\<lambda>a b. c_importance b \<le> c_importance a)
     (foldl (\<lambda>acc x. insert_left (\<lambda>a b. c_importance a < c_importance b) x acc) acc cs) \<and>
   filter (\<lambda>c. c_importance c = k)
     (foldl (\<lambda>acc x. insert_left (\<lambda>a b. c_importance a < c_importance b) x acc) acc cs) =
     rev (filter (\<lambda>c. c_importance c = k) cs) @ filter (\<lambda>c. c_importance c = k) acc"
proof (induction cs arbitrary: acc)
  case Nil
  then show ?case by simp
next
  case (Cons c cs)
  from Cons.IH[OF sorted_insert_left[OF Cons.prems], of c] show ?case
    by (simp add: filter_insert_left)
qed

text \<open>On at most 12 candidates \<^verbatim>\<open>sortCandidates\<close> is a stable sort.\<close>

lemma sortCandidates_short:
  assumes "length cs \<le> 12"
  shows "sorted_wrt (\<lambda>a b. c_importance a \<le> c_importance b) (sortCandidates go_externals cs) \<and>
         filter (\<lambda>c. c_importance c = k) (sortCandidates go_externals cs)
           = filter (\<lambda>c. c_importance c = k) cs"
  using assms foldl_insert_left[of "[]" cs k]
  by (simp add: sortCandidates_def go_externals_def sort_Slice_go_def insertionSort_def
      sorted_wrt_rev rev_filter[symmetric])

text \<open>
  C3 at a session with \<open>preserve_recent = 1\<close> and a budget of 69 tokens, into which one
  \<^verbatim>\<open>Push\<close> puts 14 entries of 5 tokens, the first with importance 1 and the others with
  the default. The 13 candidates are the rows with \<open>seq\<close> 1 to 13 and one compression
  brings the session within its budget, so the row compressed is the candidate processed
  first. By the claim that is the row with \<open>seq\<close> 2, the oldest of those with importance
  0.5. The code compresses the row with \<open>seq\<close> 7: the partitioning of the library's sort
  has swapped the pivot, the element in the middle, to the front. (Each triple is the
  \<open>seq\<close>, the importance and the compression level of a row after the call.)
\<close>

theorem C3_thirteen_candidates:
  "levels_by_seq (Push go_externals (Some session_69) [] fourteen_entries) =
     [(1, 1, 0), (2, 1 / 2, 0), (3, 1 / 2, 0), (4, 1 / 2, 0), (5, 1 / 2, 0), (6, 1 / 2, 0),
      (7, 1 / 2, 1), (8, 1 / 2, 0), (9, 1 / 2, 0), (10, 1 / 2, 0), (11, 1 / 2, 0),
      (12, 1 / 2, 0), (13, 1 / 2, 0), (14, 1 / 2, 0)]"
  by code_simp


subsection \<open>The savings that Context reports\<close>

text \<open>
  C4 at a session into which \<^verbatim>\<open>Push\<close> has put two entries of four bytes each, with roles
  \<^verbatim>\<open>user\<close> and \<^verbatim>\<open>tool\<close>. Nothing is compressed, and the claim's value, the estimates of the
  original contents minus the tokens, is 0. \<^verbatim>\<open>Context\<close> reports 1 without a filter (the
  query divides the sum of \<open>LENGTH + 3\<close> by 4, once, for 14 div 4 = 3 original tokens) and
  2 with the role \<^verbatim>\<open>user\<close> (it subtracts the tokens of the returned entries only).
\<close>

theorem C4_savings_two_entries:
  "Push demo_externals (Some wide_session) [] [entry_abcd, entry_efgh]
     = Some (rows_abcd_efgh,
             Inr \<lparr>Accepted = 2, Deduplicated = 0, Compressed = 0, Evicted = 0,
                  CurrentTokens = 2, BudgetRemaining = 98\<rparr>) \<and>
   sum_list (map (\<lambda>r. estimateTokens (original_content r)) rows_abcd_efgh)
     - sum_tokens rows_abcd_efgh = 0 \<and>
   savings_of (Context True rows_abcd_efgh \<lparr>ctx_MaxTokens = 0, ctx_Role = []\<rparr>) = Some 1 \<and>
   savings_of (Context True rows_abcd_efgh \<lparr>ctx_MaxTokens = 0, ctx_Role = ''user''\<rparr>) = Some 2"
  by code_simp


subsection \<open>Termination of Push\<close>

lemma pass_measure_Cons:
  "pass_measure (r # rows) = nat (4 - compression_level r) + 1 + pass_measure rows"
  by (simp add: pass_measure_def)

lemma pass_measure_Nil: "pass_measure [] = 0"
  by (simp add: pass_measure_def)

lemma pass_measure_delete_le: "pass_measure (delete_id i rows) \<le> pass_measure rows"
  by (induction rows) (auto simp: delete_id_def pass_measure_Cons pass_measure_Nil)

lemma pass_measure_delete:
  "i \<in> eid ` set rows \<Longrightarrow> pass_measure (delete_id i rows) < pass_measure rows"
proof (induction rows)
  case Nil
  then show ?case by simp
next
  case (Cons r rows)
  show ?case
  proof (cases "eid r = i")
    case True
    have "pass_measure (delete_id i (r # rows)) = pass_measure (delete_id i rows)"
      using True by (simp add: delete_id_def)
    also have "\<dots> \<le> pass_measure rows" by (rule pass_measure_delete_le)
    also have "\<dots> < pass_measure (r # rows)" by (simp add: pass_measure_Cons)
    finally show ?thesis .
  next
    case False
    with Cons.prems have "i \<in> eid ` set rows" by auto
    from Cons.IH[OF this] False show ?thesis
      by (simp add: delete_id_def pass_measure_Cons)
  qed
qed

lemma update_id_absent: "i \<notin> eid ` set rows \<Longrightarrow> update_id i nc nl nt rows = rows"
  by (induction rows) (auto simp: update_id_def)

lemma map_eid_update_id: "map eid (update_id i nc nl nt rows) = map eid rows"
  by (induction rows) (auto simp: update_id_def)

lemma pass_measure_update:
  assumes "distinct (map eid rows)" and "r \<in> set rows" and "eid r = i"
    and "nl = compression_level r + 1" and "nl \<le> 3"
  shows "pass_measure (update_id i nc nl nt rows) < pass_measure rows"
  using assms(1,2)
proof (induction rows)
  case Nil
  then show ?case by simp
next
  case (Cons a rows)
  show ?case
  proof (cases "a = r")
    case True
    with Cons.prems assms(3) have "i \<notin> eid ` set rows" by auto
    then have "update_id i nc nl nt rows = rows" by (rule update_id_absent)
    then have "update_id i nc nl nt (a # rows)
        = a\<lparr>content := nc, compression_level := nl, tokens := nt\<rparr> # rows"
      using True assms(3) by (simp add: update_id_def)
    then show ?thesis using True assms(4,5) by (simp add: pass_measure_Cons)
  next
    case False
    with Cons.prems have in_tl: "r \<in> set rows" and d: "distinct (map eid rows)" by auto
    from Cons.prems in_tl assms(3) have "eid a \<noteq> i" by auto
    then have "update_id i nc nl nt (a # rows) = a # update_id i nc nl nt rows"
      by (simp add: update_id_def)
    with Cons.IH[OF d in_tl] show ?thesis by (simp add: pass_measure_Cons)
  qed
qed

lemma distinct_delete_id: "distinct (map eid rows) \<Longrightarrow> distinct (map eid (delete_id i rows))"
  by (simp add: delete_id_def distinct_map_filter)

lemma distinct_update_id:
  "distinct (map eid rows) \<Longrightarrow> distinct (map eid (update_id i nc nl nt rows))"
  by (simp add: map_eid_update_id)

lemma candidates_match_tail:
  assumes "candidates_match (a # cs) rows" and "distinct (map c_id (a # cs))" and "c \<in> set cs"
  obtains r where "r \<in> set rows" "eid r = c_id c" "compression_level r = c_level c"
    "eid r \<noteq> c_id a"
proof -
  from assms(1,3) obtain r where r: "r \<in> set rows" "eid r = c_id c"
    "compression_level r = c_level c"
    unfolding candidates_match_def by auto
  from assms(2) have "c_id a \<notin> c_id ` set cs" by simp
  with assms(3) have "c_id c \<noteq> c_id a" by (metis imageI)
  with r that show ?thesis by simp
qed

lemma candidates_match_delete:
  assumes "candidates_match (a # cs) rows" and "distinct (map c_id (a # cs))"
  shows "candidates_match cs (delete_id (c_id a) rows)"
  unfolding candidates_match_def
proof
  fix c assume "c \<in> set cs"
  from candidates_match_tail[OF assms this] obtain r where
    "r \<in> set rows" "eid r = c_id c" "compression_level r = c_level c" "eid r \<noteq> c_id a"
    by blast
  then have "r \<in> set (delete_id (c_id a) rows) \<and> eid r = c_id c \<and>
      compression_level r = c_level c"
    by (simp add: delete_id_def)
  then show "\<exists>r\<in>set (delete_id (c_id a) rows). eid r = c_id c \<and> compression_level r = c_level c"
    by blast
qed

lemma candidates_match_update:
  assumes "candidates_match (a # cs) rows" and "distinct (map c_id (a # cs))"
  shows "candidates_match cs (update_id (c_id a) nc nl nt rows)"
  unfolding candidates_match_def
proof
  fix c assume "c \<in> set cs"
  from candidates_match_tail[OF assms this] obtain r where
    "r \<in> set rows" "eid r = c_id c" "compression_level r = c_level c" "eid r \<noteq> c_id a"
    by blast
  then have "r \<in> set (update_id (c_id a) nc nl nt rows) \<and> eid r = c_id c \<and>
      compression_level r = c_level c"
    by (force simp: update_id_def image_iff)
  then show "\<exists>r\<in>set (update_id (c_id a) nc nl nt rows).
      eid r = c_id c \<and> compression_level r = c_level c"
    by blast
qed

lemma compress_loop_measure:
  assumes "compress_loop X cfg cs rows cur c e = (rows', c', e')"
    and "distinct (map eid rows)" and "distinct (map c_id cs)" and "candidates_match cs rows"
  shows "distinct (map eid rows') \<and>
         int (pass_measure rows') + (c' - c) + (e' - e) \<le> int (pass_measure rows)"
  using assms
proof (induction cs arbitrary: rows cur c e)
  case Nil
  then show ?case by simp
next
  case (Cons a cs)
  show ?case
  proof (cases "cur \<le> maxTokens cfg")
    case True
    with Cons.prems show ?thesis by simp
  next
    case over: False
    from Cons.prems(4) obtain r where r: "r \<in> set rows" "eid r = c_id a"
      "compression_level r = c_level a"
      by (auto simp: candidates_match_def)
    from Cons.prems(3) have dcs: "distinct (map c_id cs)" by simp
    show ?thesis
    proof (cases "c_level a + 1 > LevelKeywords")
      case True
      with over Cons.prems(1) have run: "compress_loop X cfg cs (delete_id (c_id a) rows)
          (cur - c_tokens a) c (e + 1) = (rows', c', e')"
        by (simp add: Let_def)
      have "c_id a \<in> eid ` set rows" using r by force
      from pass_measure_delete[OF this]
      have less: "pass_measure (delete_id (c_id a) rows) < pass_measure rows" .
      from Cons.IH[OF run distinct_delete_id[OF Cons.prems(2)] dcs
          candidates_match_delete[OF Cons.prems(4) Cons.prems(3)]] less
      show ?thesis by simp
    next
      case False
      let ?nc = "compressToLevel X (c_originalContent a) (c_level a + 1)"
      from False over Cons.prems(1) have run: "compress_loop X cfg cs
          (update_id (c_id a) ?nc (c_level a + 1) (estimateTokens ?nc) rows)
          (cur - (c_tokens a - estimateTokens ?nc)) (c + 1) e = (rows', c', e')"
        by (simp add: Let_def)
      have "pass_measure (update_id (c_id a) ?nc (c_level a + 1) (estimateTokens ?nc) rows)
            < pass_measure rows"
        using False r by (intro pass_measure_update[OF Cons.prems(2) r(1,2)])
          (simp_all add: LevelKeywords_def)
      with Cons.IH[OF run distinct_update_id[OF Cons.prems(2)] dcs
          candidates_match_update[OF Cons.prems(4) Cons.prems(3)]]
      show ?thesis by simp
    qed
  qed
qed

lemma evictOldest_measure:
  "evictOldest cfg rows cur ev = (rows', c', e') \<Longrightarrow> distinct (map eid rows) \<Longrightarrow>
   distinct (map eid rows') \<and> int (pass_measure rows') + (e' - ev) \<le> int (pass_measure rows)"
proof (induction cfg rows cur ev rule: evictOldest.induct)
  case (1 cfg rows cur ev)
  show ?case
  proof (cases "cur > maxTokens cfg")
    case False
    with "1.prems" show ?thesis by (subst (asm) evictOldest.simps) auto
  next
    case True
    show ?thesis
    proof (cases "by_seq rows")
      case Nil
      with True "1.prems" show ?thesis by (subst (asm) evictOldest.simps) auto
    next
      case (Cons r rs)
      with True "1.prems" have run: "evictOldest cfg (delete_id (eid r) rows) (cur - tokens r) (ev + 1)
          = (rows', c', e')"
        by (subst (asm) evictOldest.simps) simp
      have "r \<in> set (by_seq rows)" using Cons by simp
      then have "eid r \<in> eid ` set rows" by (simp add: by_seq_def)
      from pass_measure_delete[OF this]
        "1.IH"[OF True Cons run distinct_delete_id[OF "1.prems"(2)]]
      show ?thesis by simp
    qed
  qed
qed

lemma distinct_eid_by_seq: "distinct (map eid (by_seq rows)) = distinct (map eid rows)"
proof -
  have "mset (map eid (by_seq rows)) = mset (map eid rows)"
    by (simp add: by_seq_def)
  then show ?thesis by (rule mset_eq_imp_distinct_iff)
qed

lemma enforceBudget_measure:
  assumes "sort_Slice_permutes X" and "distinct (map eid rows)"
    and "enforceBudget X cfg rows = (rows', c, e)"
  shows "distinct (map eid rows') \<and> int (pass_measure rows') + c + e \<le> int (pass_measure rows)"
proof (cases "sum_tokens rows \<le> maxTokens cfg")
  case True
  with assms show ?thesis by (simp add: enforceBudget_def)
next
  case over: False
  show ?thesis
  proof (cases "int (length rows) - preserveRecent cfg \<le> 0")
    case True
    with over assms(3) have "evictOldest cfg rows (sum_tokens rows) 0 = (rows', c, e)"
      by (simp add: enforceBudget_def Let_def)
    from evictOldest_measure[OF this assms(2)] evictOldest_counters[OF this]
    show ?thesis by simp
  next
    case False
    let ?sel = "take (nat (int (length rows) - preserveRecent cfg)) (by_seq rows)"
    let ?cands = "sortCandidates X (map candidate_of ?sel)"
    from False over assms(3)
    have run: "compress_loop X cfg ?cands rows (sum_tokens rows) 0 0 = (rows', c, e)"
      by (simp add: enforceBudget_def Let_def)
    have ms: "mset ?cands = mset (map candidate_of ?sel)"
      using assms(1) by (simp add: sortCandidates_def sort_Slice_permutes_def)
    have "mset (map c_id ?cands) = mset (map c_id (map candidate_of ?sel))"
      using ms by (metis mset_map)
    also have "map c_id (map candidate_of ?sel) = map eid ?sel"
      by (simp add: candidate_of_def)
    finally have "distinct (map c_id ?cands) = distinct (map eid ?sel)"
      by (rule mset_eq_imp_distinct_iff)
    moreover have "distinct (map eid ?sel)"
      using assms(2) by (simp add: take_map[symmetric] distinct_eid_by_seq del: take_map)
    ultimately have d: "distinct (map c_id ?cands)" by simp
    have "set ?cands = candidate_of ` set ?sel"
      using ms by (metis mset_eq_setD set_map)
    moreover have "set ?sel \<subseteq> set rows"
      using set_take_subset[of _ "by_seq rows"] by (auto simp: by_seq_def)
    ultimately have m: "candidates_match ?cands rows"
      unfolding candidates_match_def by (auto simp: candidate_of_def)
    from compress_loop_measure[OF run assms(2) d m] show ?thesis by simp
  qed
qed

lemma enforceBudget_counters:
  "enforceBudget X cfg rows = (rows', c, e) \<Longrightarrow> 0 \<le> c \<and> 0 \<le> e"
  using compress_loop_counters[of X cfg _ rows "sum_tokens rows" 0 0 rows' c e]
    evictOldest_counters[of cfg rows "sum_tokens rows" 0 rows' c e]
  by (auto simp: enforceBudget_def Let_def split: if_splits)

lemma enforce_loop_returns:
  assumes "sort_Slice_permutes X"
  shows "distinct (map eid rows) \<Longrightarrow> \<exists>y. enforce_loop X sess rows res = Some y"
proof (induction rows arbitrary: res rule: measure_induct_rule[where f = pass_measure])
  case (less rows)
  obtain rows1 c e where eb: "enforceBudget X sess rows = (rows1, c, e)"
    by (cases "enforceBudget X sess rows") auto
  from enforceBudget_measure[OF assms less.prems eb]
  have d1: "distinct (map eid rows1)"
    and m: "int (pass_measure rows1) + c + e \<le> int (pass_measure rows)" by simp_all
  have nonneg: "0 \<le> c \<and> 0 \<le> e" by (rule enforceBudget_counters[OF eb])
  show ?case
  proof (cases "c = 0 \<and> e = 0")
    case True
    with eb show ?thesis by (subst enforce_loop.simps) (simp add: Let_def)
  next
    case False
    with nonneg m have "pass_measure rows1 < pass_measure rows" by auto
    from less.IH[OF this d1] obtain y where
      "enforce_loop X sess rows1
         (res\<lparr>Compressed := Compressed res + c, Evicted := Evicted res + e\<rparr>) = Some y"
      by blast
    with False eb show ?thesis by (subst enforce_loop.simps) (auto simp: Let_def)
  qed
qed

text \<open>
  C10. On a session whose rows have distinct ids (\<^verbatim>\<open>id\<close> is the primary key), and with a
  library sort that permutes the candidates, \<^verbatim>\<open>Push\<close> returns: the loop around
  \<^verbatim>\<open>enforceBudget\<close> ends. The reason is the second part: a pass that compresses \<open>c\<close> rows and
  evicts \<open>e\<close> lowers \<open>pass_measure\<close>, the sum over the rows of one plus the levels still
  above the row, by at least \<open>c + e\<close>, since a compression raises the level of a row that
  was below \<^verbatim>\<open>LevelKeywords\<close> by one and an eviction deletes a row.
\<close>

theorem C10_push_returns:
  assumes "sort_Slice_permutes X" and "distinct (map eid rows)"
  shows "(\<exists>rows' out. Push X sess_row rows entries = Some (rows', out)) \<and>
         (case enforceBudget X sess rows of
            (rows1, c, e) \<Rightarrow>
              0 \<le> c \<and> 0 \<le> e \<and> int (pass_measure rows1) + c + e \<le> int (pass_measure rows))"
proof
  show "\<exists>rows' out. Push X sess_row rows entries = Some (rows', out)"
  proof (cases sess_row)
    case None
    then show ?thesis by (simp add: Push_def)
  next
    case (Some sess)
    let ?r0 = "\<lparr>Accepted = 0, Deduplicated = 0, Compressed = 0, Evicted = 0,
                CurrentTokens = 0, BudgetRemaining = 0\<rparr>"
    obtain rows1 out1 where
      pe: "push_entries X sess 0 entries rows (max_seq rows) ?r0 = (rows1, out1)"
      by (cases "push_entries X sess 0 entries rows (max_seq rows) ?r0") auto
    show ?thesis
    proof (cases out1)
      case (Inl err)
      with Some pe show ?thesis by (simp add: Push_def)
    next
      case (Inr res1)
      from push_entries_distinct[OF pe assms(2)] have "distinct (map eid rows1)" .
      from enforce_loop_returns[OF assms(1) this] obtain y where
        "enforce_loop X sess rows1 res1 = Some y" by blast
      with Some pe Inr show ?thesis by (cases y) (simp add: Push_def)
    qed
  qed
next
  obtain rows1 c e where eb: "enforceBudget X sess rows = (rows1, c, e)"
    by (cases "enforceBudget X sess rows") auto
  from enforceBudget_measure[OF assms eb] enforceBudget_counters[OF eb] eb
  show "case enforceBudget X sess rows of
          (rows1, c, e) \<Rightarrow>
            0 \<le> c \<and> 0 \<le> e \<and> int (pass_measure rows1) + c + e \<le> int (pass_measure rows)"
    by simp
qed

text \<open>C10 on a session that holds two rows of 5 and 3 tokens under a budget of 6.\<close>

theorem C10_push_returns_witness:
  "(\<exists>rows' out. Push demo_externals (Some demo_session) rows_over [entry_tiny]
       = Some (rows', out)) \<and>
   (case enforceBudget demo_externals demo_session rows_over of
      (rows1, c, e) \<Rightarrow>
        0 \<le> c \<and> 0 \<le> e \<and> int (pass_measure rows1) + c + e \<le> int (pass_measure rows_over))"
proof -
  have "distinct (map eid rows_over)" by (simp add: rows_over_def)
  from C10_push_returns[OF demo_sort_Slice_permutes this] show ?thesis .
qed


section \<open>Properties of the memory store\<close>

subsection \<open>Deduplication on Store\<close>

lemma distinct_map_eq:
  "distinct (map f xs) \<Longrightarrow> x \<in> set xs \<Longrightarrow> y \<in> set xs \<Longrightarrow> f x = f y \<Longrightarrow> x = y"
  by (auto simp: distinct_map dest: inj_onD)


lemma findDuplicate_find:
  "findDuplicate X cfg emb ms =
     (case find (near_duplicate X cfg emb) ms of None \<Rightarrow> [] | Some m \<Rightarrow> m_id m)"
  by (induction ms) (auto simp: near_duplicate_def)

lemma touch_one:
  assumes "distinct (map m_id ms)" and "m0 \<in> set ms"
  shows "touch [m_id m0] now ms =
         map (\<lambda>m. if m = m0 then m\<lparr>last_referenced := now, access_count := access_count m + 1\<rparr>
                   else m) ms"
proof -
  have "\<And>m. m \<in> set ms \<Longrightarrow> (m_id m = m_id m0) = (m = m0)"
    using distinct_map_eq[OF assms(1) _ assms(2)] by auto
  then show ?thesis by (simp add: touch_def cong: map_cong)
qed

lemma find_Some_in: "find P xs = Some x \<Longrightarrow> x \<in> set xs \<and> P x"
  by (induction xs) (auto split: if_splits)

text \<open>
  C6, as amended. Let \<open>E\<close> be an entry with a text and an embedding.
  First part: when the scan of \<^verbatim>\<open>findDuplicate\<close> finds a stored row within the threshold
  (\<open>m0\<close> is the first one in the order of the scan), \<^verbatim>\<open>Store\<close> of \<open>E\<close> inserts nothing: it
  sets \<open>last_referenced\<close> of \<open>m0\<close> to the clock, adds one to its \<open>access_count\<close>, leaves
  every other row alone and reports one deduplicated entry.
  Second part: when \<open>E\<close> is within the threshold of itself and the clock has advanced
  between two calls, \<^verbatim>\<open>Store\<close> of \<open>E\<close> twice into an empty store leaves one row; the
  second call reports \<open>deduplicated = 1\<close> and \<open>total_memories = 1\<close>, and the row's
  \<open>last_referenced\<close> is the later reading of the clock.
  Ids are taken to be distinct and not empty (they are 24 hexadecimal digits).
\<close>

theorem C6_store_dedup:
  assumes "se_Text E \<noteq> []" and "se_Embedding E \<noteq> []"
  shows "(find (near_duplicate X cfg (se_Embedding E)) (memories st) = Some m0 \<and> m_id m0 \<noteq> [] \<and>
          distinct (map m_id (memories st)) \<longrightarrow>
          Store X cfg clock sessionID [E] st =
            (st\<lparr>memories :=
                  map (\<lambda>m. if m = m0
                            then m\<lparr>last_referenced := clock 0, access_count := access_count m + 1\<rparr>
                            else m) (memories st)\<rparr>,
             Inr \<lparr>Stored = 0, Merged = 0, sr_Deduplicated = 1,
                  TotalMemories = int (length (memories st))\<rparr>)) \<and>
         (CosineDistance X (se_Embedding E) (se_Embedding E) < mem_DedupThreshold cfg \<and>
          generateID X 0 \<noteq> [] \<and> clock 0 < clock' 0 \<longrightarrow>
          (case Store X cfg clock sessionID [E] \<lparr>memories = [], memory_tags = []\<rparr> of
             (st1, out1) \<Rightarrow>
               (case Store X cfg clock' sessionID [E] st1 of
                  (st2, out2) \<Rightarrow>
                    out1 = Inr \<lparr>Stored = 1, Merged = 0, sr_Deduplicated = 0, TotalMemories = 1\<rparr> \<and>
                    out2 = Inr \<lparr>Stored = 0, Merged = 0, sr_Deduplicated = 1, TotalMemories = 1\<rparr> \<and>
                    map last_referenced (memories st1) = [clock 0] \<and>
                    map last_referenced (memories st2) = [clock' 0] \<and> clock 0 < clock' 0 \<and>
                    map access_count (memories st2) = [1] \<and>
                    map m_id (memories st2) = map m_id (memories st1))))"
proof (intro conjI impI)
  assume a: "find (near_duplicate X cfg (se_Embedding E)) (memories st) = Some m0 \<and> m_id m0 \<noteq> [] \<and>
          distinct (map m_id (memories st))"
  then have fd: "findDuplicate X cfg (se_Embedding E) (memories st) = m_id m0"
    by (simp add: findDuplicate_find)
  from a have "m0 \<in> set (memories st)" using find_Some_in by fastforce
  with a have t: "touch [m_id m0] (clock 0) (memories st) =
         map (\<lambda>m. if m = m0 then m\<lparr>last_referenced := clock 0, access_count := access_count m + 1\<rparr>
                   else m) (memories st)"
    by (intro touch_one) simp_all
  show "Store X cfg clock sessionID [E] st =
            (st\<lparr>memories :=
                  map (\<lambda>m. if m = m0
                            then m\<lparr>last_referenced := clock 0, access_count := access_count m + 1\<rparr>
                            else m) (memories st)\<rparr>,
             Inr \<lparr>Stored = 0, Merged = 0, sr_Deduplicated = 1,
                  TotalMemories = int (length (memories st))\<rparr>)"
    using assms a fd t by (simp add: Store_def Let_def)
next
  assume b: "CosineDistance X (se_Embedding E) (se_Embedding E) < mem_DedupThreshold cfg \<and>
          generateID X 0 \<noteq> [] \<and> clock 0 < clock' 0"
  let ?row = "\<lparr>m_id = generateID X 0, m_text = se_Text E, m_embedding = se_Embedding E,
               m_source = se_Source E, m_session_id = sessionID, decay_level = 0,
               created_at = clock 0, last_referenced = clock 0, access_count = 0\<rparr>"
  let ?st1 = "\<lparr>memories = [?row], memory_tags = insert_tags (generateID X 0) (se_Tags E) []\<rparr>"
  have s1: "Store X cfg clock sessionID [E] \<lparr>memories = [], memory_tags = []\<rparr> =
      (?st1, Inr \<lparr>Stored = 1, Merged = 0, sr_Deduplicated = 0, TotalMemories = 1\<rparr>)"
    using assms by (simp add: Store_def Let_def)
  have s2: "Store X cfg clock' sessionID [E] ?st1 =
      (?st1\<lparr>memories := touch [generateID X 0] (clock' 0) [?row]\<rparr>,
       Inr \<lparr>Stored = 0, Merged = 0, sr_Deduplicated = 1, TotalMemories = 1\<rparr>)"
    using assms b by (simp add: Store_def Let_def touch_def)
  show "case Store X cfg clock sessionID [E] \<lparr>memories = [], memory_tags = []\<rparr> of
             (st1, out1) \<Rightarrow>
               (case Store X cfg clock' sessionID [E] st1 of
                  (st2, out2) \<Rightarrow>
                    out1 = Inr \<lparr>Stored = 1, Merged = 0, sr_Deduplicated = 0, TotalMemories = 1\<rparr> \<and>
                    out2 = Inr \<lparr>Stored = 0, Merged = 0, sr_Deduplicated = 1, TotalMemories = 1\<rparr> \<and>
                    map last_referenced (memories st1) = [clock 0] \<and>
                    map last_referenced (memories st2) = [clock' 0] \<and> clock 0 < clock' 0 \<and>
                    map access_count (memories st2) = [1] \<and>
                    map m_id (memories st2) = map m_id (memories st1))"
    using b by (simp only: s1 s2 prod.case) (simp add: touch_def)
qed

text \<open>C6 at an entry whose embedding is that of the first row of a store of four (the
  clock reads 7), and at the same entry stored twice into an empty store at the clock
  readings 7 and 9.\<close>

theorem C6_store_dedup_witness:
  "Store demo_externals memory_cfg (\<lambda>k. 7) [] [store_entry_E] store_three =
     (store_three\<lparr>memories :=
        map (\<lambda>m. if m = mem_row ''m1'' ''The service signs tokens with RS256 keys.'' [1, 0] 0 50
                  then m\<lparr>last_referenced := 7, access_count := access_count m + 1\<rparr> else m)
          (memories store_three)\<rparr>,
      Inr \<lparr>Stored = 0, Merged = 0, sr_Deduplicated = 1,
           TotalMemories = int (length (memories store_three))\<rparr>) \<and>
   (case Store demo_externals memory_cfg (\<lambda>k. 7) [] [store_entry_E]
           \<lparr>memories = [], memory_tags = []\<rparr> of
      (st1, out1) \<Rightarrow>
        (case Store demo_externals memory_cfg (\<lambda>k. 9) [] [store_entry_E] st1 of
           (st2, out2) \<Rightarrow>
             out1 = Inr \<lparr>Stored = 1, Merged = 0, sr_Deduplicated = 0, TotalMemories = 1\<rparr> \<and>
             out2 = Inr \<lparr>Stored = 0, Merged = 0, sr_Deduplicated = 1, TotalMemories = 1\<rparr> \<and>
             map last_referenced (memories st1) = [7] \<and>
             map last_referenced (memories st2) = [9] \<and> (7::int) < 9 \<and>
             map access_count (memories st2) = [1] \<and>
             map m_id (memories st2) = map m_id (memories st1)))"
proof -
  have t: "se_Text store_entry_E \<noteq> []" and e: "se_Embedding store_entry_E \<noteq> []"
    by (simp_all add: store_entry_E_def)
  have f: "find (near_duplicate demo_externals memory_cfg (se_Embedding store_entry_E))
             (memories store_three)
           = Some (mem_row ''m1'' ''The service signs tokens with RS256 keys.'' [1, 0] 0 50)"
    by (simp add: store_three_def near_duplicate_def mem_row_def store_entry_E_def
        demo_externals_def memory_cfg_def)
  have i: "m_id (mem_row ''m1'' ''The service signs tokens with RS256 keys.'' [1, 0] 0 50) \<noteq> []"
    by (simp add: mem_row_def)
  have d: "distinct (map m_id (memories store_three))"
    by (simp add: store_three_def mem_row_def)
  have n: "CosineDistance demo_externals (se_Embedding store_entry_E) (se_Embedding store_entry_E)
             < mem_DedupThreshold memory_cfg"
    by (simp add: demo_externals_def memory_cfg_def)
  have g: "generateID demo_externals 0 \<noteq> []" by (simp add: demo_externals_def)
  have c: "(7::int) < 9" by simp
  note both = C6_store_dedup[OF t e, where X = demo_externals and cfg = memory_cfg
      and st = store_three
      and ?m0.0 = "mem_row ''m1'' ''The service signs tokens with RS256 keys.'' [1, 0] 0 50"
      and clock = "\<lambda>k. 7" and sessionID = "[]" and clock' = "\<lambda>k. 9"]
  from both[THEN conjunct1, rule_format, OF conjI[OF f conjI[OF i d]]]
    both[THEN conjunct2, rule_format, OF conjI[OF n conjI[OF g c]]]
  show ?thesis by (rule conjI)
qed

text \<open>
  C6 as it was stated fails on a store whose threshold is 0 (the command's
  \<^verbatim>\<open>--dedup-threshold 0\<close>): the comparison is strict, so no distance is below the threshold
  and no row is a duplicate, not even of itself. \<^verbatim>\<open>Store\<close> of \<open>E\<close> twice, the second call
  drawing another id, inserts two rows and the second call reports \<open>stored = 1\<close>,
  \<open>deduplicated = 0\<close> and \<open>total_memories = 2\<close>.
\<close>

theorem C6_zero_threshold_counterexample:
  "Store demo_externals no_dedup_cfg (\<lambda>k. 7) [] [store_entry_E] \<lparr>memories = [], memory_tags = []\<rparr>
     = (\<lparr>memories = [stored_E ''x'' 7], memory_tags = [(''x'', ''auth'')]\<rparr>,
        Inr \<lparr>Stored = 1, Merged = 0, sr_Deduplicated = 0, TotalMemories = 1\<rparr>) \<and>
   Store later_externals no_dedup_cfg (\<lambda>k. 9) [] [store_entry_E]
       \<lparr>memories = [stored_E ''x'' 7], memory_tags = [(''x'', ''auth'')]\<rparr>
     = (\<lparr>memories = [stored_E ''x'' 7, stored_E ''y'' 9],
         memory_tags = [(''x'', ''auth''), (''y'', ''auth'')]\<rparr>,
        Inr \<lparr>Stored = 1, Merged = 0, sr_Deduplicated = 0, TotalMemories = 2\<rparr>)"
  by code_simp


subsection \<open>The order of Recall\<close>



















subsection \<open>A pass of the decay worker\<close>









text \<open>The same pass, evaluated: the Full row becomes a Summary row, the Summary row a
  Keywords row, the Keywords row is evicted and the fresh row stays.\<close>

lemma runOnce_store_three:
  "map (\<lambda>m. (m_id m, decay_level m)) (memories (runOnce demo_externals memory_cfg 100 store_three))
     = [(''m1'', 1), (''m2'', 2), (''m4'', 0)]"
  by code_simp

end
